theory Spec2Isabelle
  imports Complex_Main "HOL-Library.Sublist"
begin

section \<open>Strings of the front end\<close>

text \<open>
  The front end is TypeScript. A string is modelled as a \<^typ>\<open>string\<close>: each
  \<^typ>\<open>char\<close> stands for the UTF-16 code unit of the same number, so the model
  covers the strings whose code units are below 256. The library functions of the
  language that the components call (\<^verbatim>\<open>trim\<close>, \<^verbatim>\<open>split\<close>,
  \<^verbatim>\<open>includes\<close>, \<^verbatim>\<open>replace\<close>, \<^verbatim>\<open>parseInt\<close>,
  \<^verbatim>\<open>match\<close>) are written out as the language standard defines them.
\<close>

definition isWhiteSpace :: "char \<Rightarrow> bool" where
  \<comment> \<open>White space and line terminators: TAB, LF, VT, FF, CR, SP, NBSP. It is the set
      that \<^verbatim>\<open>trim\<close> strips and that \<^verbatim>\<open>\s\<close> matches.\<close>
  "isWhiteSpace c =
     (c \<in> set [CHR 0x09, CHR 0x0A, CHR 0x0B, CHR 0x0C, CHR 0x0D, CHR 0x20, CHR 0xA0])"

definition isLineTerminator :: "char \<Rightarrow> bool" where
  "isLineTerminator c = (c = CHR 0x0A \<or> c = CHR 0x0D)"

definition isDigit :: "char \<Rightarrow> bool" where
  "isDigit c = (c \<in> set ''0123456789'')"

definition canonicalize :: "char \<Rightarrow> char" where
  \<comment> \<open>Case folding of the flag \<^verbatim>\<open>i\<close>: a lower-case ASCII letter is compared as its
      upper-case letter. No other code unit folds onto an ASCII letter.\<close>
  "canonicalize c =
     (let n = (of_char c :: nat) in if 97 \<le> n \<and> n \<le> 122 then char_of (n - 32) else c)"

definition js_trim :: "string \<Rightarrow> string" where
  "js_trim s = rev (dropWhile isWhiteSpace (rev (dropWhile isWhiteSpace s)))"

text \<open>
  \<^verbatim>\<open>s.split(sep)\<close> with a string separator cuts \<^verbatim>\<open>s\<close> at the leftmost
  occurrences of \<^verbatim>\<open>sep\<close> that do not overlap; \<open>split_from\<close> walks the string and
  keeps the part read so far (reversed) in \<open>acc\<close>. An empty separator cuts between
  all code units.
\<close>

function split_from :: "string \<Rightarrow> string \<Rightarrow> string \<Rightarrow> string list" where
  "split_from sep acc [] = [rev acc]"
| "split_from sep acc (c # cs) =
     (if sep \<noteq> [] \<and> prefix sep (c # cs)
      then rev acc # split_from sep [] (drop (length sep) (c # cs))
      else split_from sep (c # acc) cs)"
  by pat_completeness auto
termination
  by (relation "measure (\<lambda>(sep, acc, s). length s)") auto

definition js_split :: "string \<Rightarrow> string \<Rightarrow> string list" where
  "js_split s sep = (if sep = [] then map (\<lambda>c. [c]) s else split_from sep [] s)"

fun js_join :: "string list \<Rightarrow> string \<Rightarrow> string" where
  "js_join [] sep = []"
| "js_join [p] sep = p"
| "js_join (p # q # ps) sep = p @ sep @ js_join (q # ps) sep"

fun js_includes :: "string \<Rightarrow> string \<Rightarrow> bool" where
  "js_includes [] sub = (sub = [])"
| "js_includes (c # cs) sub = (prefix sub (c # cs) \<or> js_includes cs sub)"

definition parseInt :: "string \<Rightarrow> nat" where
  \<comment> \<open>\<^verbatim>\<open>parseInt\<close> on a string of decimal digits, which is all the parser passes to
      it. The result is a number for every such string and it is zero only when every
      digit is \<^verbatim>\<open>0\<close>; beyond \<open>2^53\<close> the language rounds where this model keeps the
      exact value.\<close>
  "parseInt ds = foldl (\<lambda>n c. 10 * n + (of_char c - 48)) 0 ds"

section \<open>Regular expressions of the review parser\<close>

text \<open>
  The three patterns of \<^verbatim>\<open>parseSection\<close> are sequences of single characters,
  character classes under a greedy or a lazy quantifier, and capture groups around such
  sequences. A pattern is a list of nodes; \<open>Open n\<close> and \<open>Close n\<close> mark the
  parentheses of group \<open>n\<close>. \<open>rmatch\<close> is the backtracking matcher of the language:
  a greedy quantifier tries the longest repetition first, a lazy one the shortest, and
  the first way through the whole pattern is the match.
\<close>

datatype cclass = Lit char | LitI char | Dot | Digit | Space

fun cc_match :: "cclass \<Rightarrow> char \<Rightarrow> bool" where
  "cc_match (Lit c) x = (x = c)"
| "cc_match (LitI c) x = (canonicalize x = canonicalize c)"
| "cc_match Dot x = (\<not> isLineTerminator x)"
| "cc_match Digit x = isDigit x"
| "cc_match Space x = isWhiteSpace x"

datatype node = One cclass | Star cclass | LazyStar cclass | Plus cclass | LazyPlus cclass
  | Open nat | Close nat

type_synonym captures = "(nat \<times> string) list"

fun rmatch :: "node list \<Rightarrow> string \<Rightarrow> captures \<Rightarrow> captures \<Rightarrow> captures option" where
  "rmatch [] s ops caps = Some caps"
| "rmatch (One c # r) [] ops caps = None"
| "rmatch (One c # r) (x # xs) ops caps =
     (if cc_match c x then rmatch r xs ops caps else None)"
| "rmatch (Star c # r) [] ops caps = rmatch r [] ops caps"
| "rmatch (Star c # r) (x # xs) ops caps =
     (if cc_match c x
      then (case rmatch (Star c # r) xs ops caps of
              Some m \<Rightarrow> Some m
            | None \<Rightarrow> rmatch r (x # xs) ops caps)
      else rmatch r (x # xs) ops caps)"
| "rmatch (LazyStar c # r) [] ops caps = rmatch r [] ops caps"
| "rmatch (LazyStar c # r) (x # xs) ops caps =
     (case rmatch r (x # xs) ops caps of
        Some m \<Rightarrow> Some m
      | None \<Rightarrow> (if cc_match c x then rmatch (LazyStar c # r) xs ops caps else None))"
| "rmatch (Plus c # r) [] ops caps = None"
| "rmatch (Plus c # r) (x # xs) ops caps =
     (if cc_match c x then rmatch (Star c # r) xs ops caps else None)"
| "rmatch (LazyPlus c # r) [] ops caps = None"
| "rmatch (LazyPlus c # r) (x # xs) ops caps =
     (if cc_match c x then rmatch (LazyStar c # r) xs ops caps else None)"
| "rmatch (Open n # r) s ops caps = rmatch r s ((n, s) # ops) caps"
| "rmatch (Close n # r) s ops caps =
     (case map_of ops n of
        None \<Rightarrow> rmatch r s ops caps
      | Some s0 \<Rightarrow> rmatch r s ops ((n, take (length s0 - length s) s0) # caps))"

text \<open>A pattern without \<^verbatim>\<open>^\<close> is tried at every position, from the left.\<close>

fun search :: "node list \<Rightarrow> string \<Rightarrow> captures option" where
  "search re [] = rmatch re [] [] []"
| "search re (x # xs) =
     (case rmatch re (x # xs) [] [] of Some m \<Rightarrow> Some m | None \<Rightarrow> search re xs)"

text \<open>
  The groups that a match of a pattern is sure to have captured: those whose closing
  parenthesis lies in the pattern after their opening one.
\<close>

fun closed_groups :: "node list \<Rightarrow> nat set \<Rightarrow> nat set" where
  "closed_groups [] opened = {}"
| "closed_groups (Open n # r) opened = closed_groups r (insert n opened)"
| "closed_groups (Close n # r) opened =
     (if n \<in> opened then insert n (closed_groups r opened) else closed_groups r opened)"
| "closed_groups (One c # r) opened = closed_groups r opened"
| "closed_groups (Star c # r) opened = closed_groups r opened"
| "closed_groups (LazyStar c # r) opened = closed_groups r opened"
| "closed_groups (Plus c # r) opened = closed_groups r opened"
| "closed_groups (LazyPlus c # r) opened = closed_groups r opened"

text \<open>The groups that a pattern closes.\<close>

fun closes :: "node list \<Rightarrow> nat set" where
  "closes [] = {}"
| "closes (Close n # r) = insert n (closes r)"
| "closes (nd # r) = closes r"

definition lits :: "string \<Rightarrow> node list" where
  "lits s = map (\<lambda>c. One (Lit c)) s"

definition litsI :: "string \<Rightarrow> node list" where
  "litsI s = map (\<lambda>c. One (LitI c)) s"

definition titleRe :: "node list" where
  \<comment> \<open>\<^verbatim>\<open>/\*\*(.+?)\*\*.*?(\d+)\s*\/\s*10/\<close>\<close>
  "titleRe = lits ''**'' @ [Open 1, LazyPlus Dot, Close 1] @ lits ''**'' @ [LazyStar Dot,
     Open 2, Plus Digit, Close 2, Star Space, One (Lit CHR ''/''), Star Space] @ lits ''10''"

definition headingRe :: "node list" where
  \<comment> \<open>\<^verbatim>\<open>/^#+\s*(.+)/\<close>\<close>
  "headingRe = [Plus (Lit CHR ''#''), Star Space, Open 1, Plus Dot, Close 1]"

definition scoreRe :: "node list" where
  \<comment> \<open>\<^verbatim>\<open>/Score.*?(\d+)\s*\/\s*10/i\<close>\<close>
  "scoreRe = litsI ''Score'' @ [LazyStar Dot, Open 1, Plus Digit, Close 1, Star Space,
     One (Lit CHR ''/''), Star Space] @ lits ''10''"

definition titleMatch :: "string \<Rightarrow> (string \<times> string) option" where
  "titleMatch line =
     (case search titleRe line of
        None \<Rightarrow> None
      | Some m \<Rightarrow> (case (map_of m 1, map_of m 2) of
                    (Some t, Some d) \<Rightarrow> Some (t, d)
                  | _ \<Rightarrow> None))"

definition headingMatch :: "string \<Rightarrow> string option" where
  "headingMatch line =
     (case rmatch headingRe line [] [] of None \<Rightarrow> None | Some m \<Rightarrow> map_of m 1)"

definition scoreMatch :: "string \<Rightarrow> string option" where
  "scoreMatch line =
     (case search scoreRe line of None \<Rightarrow> None | Some m \<Rightarrow> map_of m 1)"

section \<open>The review component\<close>

text \<open>
  \<^verbatim>\<open>AICodeReview\<close> splits the reply of the model at the token
  \<^verbatim>\<open>---REVIEW_BREAK---\<close>, drops the parts that trim to the empty string and parses
  each remaining part with \<^verbatim>\<open>parseSection\<close>.
\<close>

record review_section =
  title :: string
  score :: "nat option"
  content :: string

fun remove_bold :: "string \<Rightarrow> string" where
  \<comment> \<open>\<^verbatim>\<open>.replace(/\*\*/g, "")\<close>\<close>
  "remove_bold (a # b # cs) =
     (if a = CHR ''*'' \<and> b = CHR ''*'' then remove_bold cs else a # remove_bold (b # cs))"
| "remove_bold cs = cs"

text \<open>
  The loop over the lines of a section, with the two variables it assigns. A line that
  matches the title pattern sets both and ends the loop (\<^verbatim>\<open>break\<close>). On any other
  line a heading is taken as the title only under the guard \<^verbatim>\<open>!title\<close>, that is
  when the title is the empty string, and a score line overwrites the score.
\<close>

fun parse_lines :: "string list \<Rightarrow> string \<Rightarrow> nat option \<Rightarrow> string \<times> nat option" where
  "parse_lines [] ttl sc = (ttl, sc)"
| "parse_lines (line # rest) ttl sc =
     (case titleMatch line of
        Some (t, d) \<Rightarrow> (t, Some (parseInt d))
      | None \<Rightarrow>
          parse_lines rest
            (case headingMatch line of
               None \<Rightarrow> ttl
             | Some h \<Rightarrow> if ttl = [] then remove_bold h else ttl)
            (case scoreMatch line of
               None \<Rightarrow> sc
             | Some d \<Rightarrow> Some (parseInt d)))"

definition section_lines :: "string \<Rightarrow> string list" where
  "section_lines txt = js_split (js_trim txt) [CHR 0x0A]"

definition parseSection :: "string \<Rightarrow> review_section" where
  "parseSection txt =
     (case parse_lines (section_lines txt) ''Review'' None of
        (ttl, sc) \<Rightarrow> \<lparr>title = ttl, score = sc, content = js_trim txt\<rparr>)"

definition sections :: "string \<Rightarrow> string list" where
  "sections review = filter (\<lambda>s. js_trim s \<noteq> []) (js_split review ''---REVIEW_BREAK---'')"

definition parsed :: "string \<Rightarrow> review_section list" where
  "parsed review = map parseSection (sections review)"

text \<open>
  The score cards above the review. The emoji of the source are named here by what they
  show: clipboard U+1F4CB, trophy U+1F3C6, check mark U+2705, warning sign U+26A0 and
  rotating light U+1F6A8.
\<close>

datatype emoji = Clipboard | Trophy | CheckMark | WarningSign | RotatingLight

definition getScoreColor :: "nat option \<Rightarrow> string" where
  "getScoreColor sc =
     (case sc of
        None \<Rightarrow> ''#888''
      | Some n \<Rightarrow>
          if n \<ge> 8 then ''#22c55e''
          else if n \<ge> 6 then ''#eab308''
          else if n \<ge> 4 then ''#f97316''
          else ''#ef4444'')"

definition getScoreEmoji :: "nat option \<Rightarrow> emoji" where
  "getScoreEmoji sc =
     (case sc of
        None \<Rightarrow> Clipboard
      | Some n \<Rightarrow>
          if n \<ge> 9 then Trophy
          else if n \<ge> 7 then CheckMark
          else if n \<ge> 5 then WarningSign
          else RotatingLight)"

record score_card =
  card_emoji :: emoji
  card_color :: string
  card_score :: "nat option"
  card_title :: string

definition scoreCard :: "review_section \<Rightarrow> score_card" where
  "scoreCard p = \<lparr>card_emoji = getScoreEmoji (score p), card_color = getScoreColor (score p),
     card_score = score p, card_title = title p\<rparr>"

definition scoreCards :: "review_section list \<Rightarrow> score_card list option" where
  \<comment> \<open>\<^verbatim>\<open>parsed.length > 1 && (grid of parsed.filter(score !== null).slice(0, 5).map(card))\<close>;
      \<open>None\<close> is the grid that is not rendered.\<close>
  "scoreCards ps =
     (if length ps > 1
      then Some (map scoreCard (take 5 (filter (\<lambda>p. score p \<noteq> None) ps)))
      else None)"

section \<open>The landing page: submitting a repository\<close>

text \<open>
  \<^verbatim>\<open>handleSubmit\<close> of the landing page, up to the point where it awaits the reply
  to the create request: it returns the new state of the page and the request it
  sends, if any. \<^verbatim>\<open>handleReply\<close> is the rest of the handler, run on the outcome of
  the request.
\<close>

record home_state =
  repoUrl :: string
  loading :: bool
  error :: string

datatype create_request = PostGenerate string

datatype create_reply = Thrown string | Replied bool string

definition handleSubmit :: "home_state \<Rightarrow> home_state \<times> create_request option" where
  "handleSubmit st =
     (if js_trim (repoUrl st) = [] then (st, None)
      else if \<not> js_includes (repoUrl st) ''github.com''
      then (st\<lparr>error := ''Please enter a valid GitHub repository URL''\<rparr>, None)
      else (st\<lparr>error := [], loading := True\<rparr>, Some (PostGenerate (js_trim (repoUrl st)))))"

definition failed :: "home_state \<Rightarrow> string \<Rightarrow> home_state" where
  \<comment> \<open>the \<^verbatim>\<open>catch\<close> block\<close>
  "failed st msg =
     st\<lparr>error := (if msg = [] then ''Something went wrong'' else msg), loading := False\<rparr>"

definition handleReply :: "home_state \<Rightarrow> create_reply \<Rightarrow> home_state \<times> string option" where
  \<comment> \<open>the second component is the route the page moves to\<close>
  "handleReply st r =
     (case r of
        Thrown msg \<Rightarrow> (failed st msg, None)
      | Replied ok task_id \<Rightarrow>
          if ok then (st, Some (''/generate/'' @ task_id))
          else (failed st ''Failed to start generation'', None))"

text \<open>
  The shape that the claim about submission speaks of, following the words of the
  specification (a reference that resembles a repository location, with a recognizable
  host and path) and the reference that the page itself shows as its example,
  \<^verbatim>\<open>https://github.com/owner/repo\<close>: after trimming, the reference has no white
  space, starts with the scheme and the host \<^verbatim>\<open>github.com\<close>, and goes on with a path
  of a non-empty owner and a non-empty repository name. It is not part of the handler.
\<close>

definition after_prefix :: "string \<Rightarrow> string \<Rightarrow> string option" where
  "after_prefix p s = (if prefix p s then Some (drop (length p) s) else None)"

definition repository_path :: "string \<Rightarrow> bool" where
  "repository_path p =
     (case js_split p ''/'' of
        owner # repo # rest \<Rightarrow> owner \<noteq> [] \<and> repo \<noteq> []
      | _ \<Rightarrow> False)"

definition repository_shape :: "string \<Rightarrow> bool" where
  "repository_shape ref =
     (let r = js_trim ref in
      list_all (\<lambda>c. \<not> isWhiteSpace c) r \<and>
      (case after_prefix ''https://github.com/'' r of
         Some p \<Rightarrow> repository_path p
       | None \<Rightarrow>
           (case after_prefix ''http://github.com/'' r of
              Some p \<Rightarrow> repository_path p
            | None \<Rightarrow> False)))"

section \<open>The result page: polling the status of a task\<close>

datatype Status = Pending | Cloning | Analyzing | Generating | Complete | Error

record TaskStatus =
  status :: Status
  progress :: int
  message :: string

definition terminal :: "Status \<Rightarrow> bool" where
  "terminal s = (s = Complete \<or> s = Error)"

text \<open>
  The polling effect of \<^verbatim>\<open>GeneratePage\<close> is a machine over the events of the page.
  Its state holds the React state \<^verbatim>\<open>status\<close>, the value of \<^verbatim>\<open>status.status\<close>
  that the last run of the effect saw (its dependency), the interval that this run
  created (if it created one), the status requests that were sent and still await their
  reply, each with the interval whose callback sent it, and counters of the requests
  sent. \<open>observed\<close> lists the statuses passed to \<^verbatim>\<open>setStatus\<close>, oldest first.

  There are three events. \<open>Tick\<close>: the active interval fires and its callback sends a
  status request. \<open>Reply\<close>: one request in flight gets its reply and the rest of the
  callback runs; the callback is asynchronous, so other events take place between a
  request and its reply, and replies may come in any order. \<open>Effect\<close>: React commits
  the render that a \<^verbatim>\<open>setStatus\<close> asked for and, when \<^verbatim>\<open>status.status\<close> differs
  from the value the last run saw, runs the clean-up of that run and then the effect
  again. The callback itself clears its interval only on \<^verbatim>\<open>complete\<close>; on any other
  status the interval stays active until the effect has run again.
\<close>

record poller =
  taskId :: string
  task_status :: TaskStatus
  effect_status :: Status
  interval :: "nat option"
  next_interval :: nat
  in_flight :: "(nat \<times> nat) list"
  status_requests :: nat
  result_requests :: nat
  observed :: "Status list"

datatype reply = NotOk | Threw | Ok TaskStatus

datatype event = Tick | Reply nat reply | Effect

definition run_effect :: "poller \<Rightarrow> poller" where
  \<comment> \<open>the clean-up of the previous run (\<^verbatim>\<open>clearInterval\<close>), then the body of the effect\<close>
  "run_effect st =
     (if taskId st = [] \<or> terminal (status (task_status st))
      then st\<lparr>effect_status := status (task_status st), interval := None\<rparr>
      else st\<lparr>effect_status := status (task_status st),
              interval := Some (next_interval st), next_interval := Suc (next_interval st)\<rparr>)"

definition mount :: "string \<Rightarrow> poller" where
  "mount tid = run_effect
     \<lparr>taskId = tid,
      task_status = \<lparr>status = Pending, progress = 0, message = ''Starting...''\<rparr>,
      effect_status = Pending,
      interval = None, next_interval = 0, in_flight = [], status_requests = 0,
      result_requests = 0, observed = []\<rparr>"

definition on_reply :: "nat \<Rightarrow> reply \<Rightarrow> poller \<Rightarrow> poller" where
  \<comment> \<open>the callback from the reply on, for a request sent by the callback of interval \<open>i\<close>\<close>
  "on_reply i r st =
     (case r of
        NotOk \<Rightarrow> st
      | Threw \<Rightarrow> st
      | Ok data \<Rightarrow>
          let st1 = st\<lparr>task_status := data, observed := observed st @ [status data]\<rparr>
          in if status data = Complete
             then st1\<lparr>interval := (if interval st1 = Some i then None else interval st1),
                      result_requests := Suc (result_requests st1)\<rparr>
             else st1)"

fun step :: "event \<Rightarrow> poller \<Rightarrow> poller" where
  "step Tick st =
     (case interval st of
        None \<Rightarrow> st
      | Some i \<Rightarrow> st\<lparr>in_flight := in_flight st @ [(status_requests st, i)],
                       status_requests := Suc (status_requests st)\<rparr>)"
| "step (Reply k r) st =
     (case map_of (in_flight st) k of
        None \<Rightarrow> st
      | Some i \<Rightarrow> on_reply i r (st\<lparr>in_flight := filter (\<lambda>q. fst q \<noteq> k) (in_flight st)\<rparr>))"
| "step Effect st =
     (if status (task_status st) \<noteq> effect_status st then run_effect st else st)"

fun run :: "event list \<Rightarrow> poller \<Rightarrow> poller" where
  "run [] st = st"
| "run (e # es) st = run es (step e st)"

text \<open>
  Polling in order: every status request gets its reply, and React runs the effect, before
  the interval fires again, so that no two requests are in flight. \<open>poll_round\<close> is one
  firing of the interval, the reply to the request it sent and the run of the effect.
\<close>

definition poll_round :: "reply \<Rightarrow> poller \<Rightarrow> poller" where
  "poll_round r st = step Effect (step (Reply (status_requests st) r) (step Tick st))"

fun poll :: "reply list \<Rightarrow> poller \<Rightarrow> poller" where
  "poll [] st = st"
| "poll (r # rs) st = poll rs (poll_round r st)"

text \<open>
  The invariant of polling in order: nothing is in flight, the effect has seen the
  current status, a terminal status leaves no interval behind, and only the latest
  observed status can be terminal.
\<close>

definition polling :: "poller \<Rightarrow> bool" where
  "polling st =
     (in_flight st = [] \<and> effect_status st = status (task_status st) \<and>
      (terminal (status (task_status st)) \<longrightarrow> interval st = None) \<and>
      (\<forall>s \<in> set (butlast (observed st)). \<not> terminal s) \<and>
      (observed st \<noteq> [] \<longrightarrow> last (observed st) = status (task_status st)))"

section \<open>The result page: tabs of the document bundle\<close>

text \<open>
  The fields of \<^verbatim>\<open>GeneratedDocs\<close> that the text tabs read. A field that the
  interface declares optional or nullable is an option.
\<close>

record DocSection =
  sec_title :: string
  sec_content :: string
  sec_order :: int

record GeneratedDocs =
  repo_name :: string
  overview :: string
  doc_sections :: "DocSection list"
  tech_stack :: string
  setup_guide :: string
  api_docs :: "string option"
  full_markdown :: "string option"
  contributing_md :: "string option"
  ai_code_review :: "string option"

datatype rendered = Paragraph string | ReactMarkdown string | Pre string

definition DocViewer :: "string \<Rightarrow> rendered" where
  "DocViewer c = (if c = [] then Paragraph ''No content available.'' else ReactMarkdown c)"

definition or_else :: "string option \<Rightarrow> string \<Rightarrow> string" where
  \<comment> \<open>\<^verbatim>\<open>a || b\<close> for an optional string: absent and empty are both falsy\<close>
  "or_else a b = (case a of None \<Rightarrow> b | Some s \<Rightarrow> if s = [] then b else s)"

definition techstack_tab :: "GeneratedDocs \<Rightarrow> rendered" where
  "techstack_tab docs =
     DocViewer (or_else (Some (tech_stack docs)) ''No tech stack information generated.'')"

definition setup_tab :: "GeneratedDocs \<Rightarrow> rendered" where
  "setup_tab docs = DocViewer (or_else (Some (setup_guide docs)) ''No setup guide generated.'')"

definition api_tab :: "GeneratedDocs \<Rightarrow> rendered" where
  "api_tab docs =
     DocViewer (or_else (api_docs docs) ''No API documentation detected for this project.'')"

definition sections_tab :: "GeneratedDocs \<Rightarrow> (string \<times> rendered) list" where
  "sections_tab docs = map (\<lambda>sec. (sec_title sec, DocViewer (sec_content sec))) (doc_sections docs)"

definition markdown_tab :: "GeneratedDocs \<Rightarrow> rendered" where
  "markdown_tab docs = Pre (or_else (full_markdown docs) ''Markdown not available.'')"

definition shown :: "rendered \<Rightarrow> string" where
  "shown r = (case r of Paragraph s \<Rightarrow> s | ReactMarkdown s \<Rightarrow> s | Pre s \<Rightarrow> s)"

section \<open>The health gauge\<close>

text \<open>
  \<^verbatim>\<open>gradeColors[data.grade] || "#888"\<close> reads a property of an object literal under
  a key that is any string. The literal has the six own properties below, and like
  every object literal it inherits the properties of \<^verbatim>\<open>Object.prototype\<close>, which
  a read with brackets finds as well. The value read is therefore a string, a function,
  an object or \<^verbatim>\<open>undefined\<close>.
\<close>

datatype js_value = Str string | Fn string | Obj string | Undefined

definition gradeColors :: "(string \<times> string) list" where
  "gradeColors = [(''A+'', ''#00ff88''), (''A'', ''#22c55e''), (''B'', ''#84cc16''),
     (''C'', ''#eab308''), (''D'', ''#f97316''), (''F'', ''#ef4444'')]"

definition object_prototype :: "(string \<times> js_value) list" where
  "object_prototype =
     [(''constructor'', Fn ''Object''),
      (''hasOwnProperty'', Fn ''hasOwnProperty''),
      (''isPrototypeOf'', Fn ''isPrototypeOf''),
      (''propertyIsEnumerable'', Fn ''propertyIsEnumerable''),
      (''toLocaleString'', Fn ''toLocaleString''),
      (''toString'', Fn ''toString''),
      (''valueOf'', Fn ''valueOf''),
      (''__defineGetter__'', Fn ''__defineGetter__''),
      (''__defineSetter__'', Fn ''__defineSetter__''),
      (''__lookupGetter__'', Fn ''__lookupGetter__''),
      (''__lookupSetter__'', Fn ''__lookupSetter__''),
      (''__proto__'', Obj ''Object.prototype'')]"

definition get_property :: "(string \<times> string) list \<Rightarrow> string \<Rightarrow> js_value" where
  "get_property obj k =
     (case map_of obj k of
        Some v \<Rightarrow> Str v
      | None \<Rightarrow> (case map_of object_prototype k of Some v \<Rightarrow> v | None \<Rightarrow> Undefined))"

definition truthy :: "js_value \<Rightarrow> bool" where
  "truthy v = (case v of Str s \<Rightarrow> s \<noteq> [] | Fn f \<Rightarrow> True | Obj x \<Rightarrow> True | Undefined \<Rightarrow> False)"

definition gauge_color :: "string \<Rightarrow> js_value" where
  "gauge_color g = (let v = get_property gradeColors g in if truthy v then v else Str ''#888'')"

definition circumference :: real where
  "circumference = 2 * pi * 80"

definition gauge_offset :: "real \<Rightarrow> real" where
  "gauge_offset sc = circumference - (sc / 100) * circumference"

section \<open>The complexity dashboard\<close>

record language_entry =
  language :: string
  lines :: int
  percentage :: real

definition maxLines :: "language_entry list \<Rightarrow> int" where
  \<comment> \<open>\<^verbatim>\<open>Math.max(...data.language_distribution.map((l) => l.lines), 1)\<close>\<close>
  "maxLines ld = foldr max (map lines ld) 1"

definition bar_width :: "language_entry list \<Rightarrow> language_entry \<Rightarrow> real" where
  \<comment> \<open>\<^verbatim>\<open>(l.lines / maxLines) * 100\<close>, as the exact quotient\<close>
  "bar_width ld l = (real_of_int (lines l) / real_of_int (maxLines ld)) * 100"

section \<open>The health grade\<close>

datatype health_grade = Grade_F | Grade_D | Grade_C | Grade_B | Grade_A | Grade_A_plus

text \<open>
  Modelled from the spec: the health scorer, which derives the grade from the score, is
  code of the backend and is not among the sources; the front end only displays the
  grade it receives. \<open>grade\<close> follows the thresholds that the specification fixes for
  it: at least 95 is A+, at least 85 is A, at least 70 is B, at least 55 is C, at least
  35 is D, and anything below is F.
\<close>

definition grade :: "int \<Rightarrow> health_grade" where
  "grade s =
     (if s \<ge> 95 then Grade_A_plus
      else if s \<ge> 85 then Grade_A
      else if s \<ge> 70 then Grade_B
      else if s \<ge> 55 then Grade_C
      else if s \<ge> 35 then Grade_D
      else Grade_F)"

fun grade_rank :: "health_grade \<Rightarrow> nat" where
  "grade_rank Grade_F = 0"
| "grade_rank Grade_D = 1"
| "grade_rank Grade_C = 2"
| "grade_rank Grade_B = 3"
| "grade_rank Grade_A = 4"
| "grade_rank Grade_A_plus = 5"

text \<open>
  Modelled from the spec: the same thresholds read as bands of the scores from 0 to 100,
  each with its lowest score, its highest score and its grade.
\<close>

definition grade_bands :: "(int \<times> int \<times> health_grade) list" where
  "grade_bands = [(95, 100, Grade_A_plus), (85, 94, Grade_A), (70, 84, Grade_B),
     (55, 69, Grade_C), (35, 54, Grade_D), (0, 34, Grade_F)]"

definition in_band :: "int \<Rightarrow> int \<times> int \<times> health_grade \<Rightarrow> bool" where
  "in_band s b = (fst b \<le> s \<and> s \<le> fst (snd b))"

section \<open>Matches and their groups\<close>

text \<open>
  Whenever one of the three patterns matches, its groups are captured, so \<open>titleMatch\<close>,
  \<open>scoreMatch\<close> and \<open>headingMatch\<close> are \<open>None\<close> only when the pattern does not match.
  The digits of a score are parsed to zero only when all of them are \<^verbatim>\<open>0\<close>.
\<close>

lemma rmatch_keeps_captures:
  "rmatch r s ops caps = Some m \<Longrightarrow> fst ` set caps \<subseteq> fst ` set m"
  by (induction r s ops caps rule: rmatch.induct)
     (auto split: if_splits option.splits)

lemma rmatch_closed_groups:
  "rmatch r s ops caps = Some m \<Longrightarrow> closed_groups r (fst ` set ops) \<subseteq> fst ` set m"
proof (induction r s ops caps rule: rmatch.induct)
  case (13 n r s ops caps)
  show ?case
  proof (cases "map_of ops n")
    case None
    then have "n \<notin> fst ` set ops" by (simp add: map_of_eq_None_iff)
    with 13 None show ?thesis by simp
  next
    case (Some s0)
    then have n: "n \<in> fst ` set ops" by (metis map_of_eq_None_iff option.distinct(1))
    from 13(3) Some have m: "rmatch r s ops ((n, take (length s0 - length s) s0) # caps) = Some m"
      by simp
    from rmatch_keeps_captures [OF m] have "n \<in> fst ` set m" by auto
    with 13(2) [OF Some m] n show ?thesis by simp
  qed
qed (simp_all split: if_splits option.splits)

lemma search_closed_groups:
  "search r s = Some m \<Longrightarrow> closed_groups r {} \<subseteq> fst ` set m"
proof (induction s)
  case Nil
  then show ?case using rmatch_closed_groups [of r "[]" "[]" "[]" m] by simp
next
  case (Cons x xs)
  then show ?case
    using rmatch_closed_groups [of r "x # xs" "[]" "[]" m] by (auto split: option.splits)
qed

lemma titleMatch_None_iff: "(titleMatch l = None) = (search titleRe l = None)"
proof (cases "search titleRe l")
  case None
  then show ?thesis by (simp add: titleMatch_def)
next
  case (Some m)
  have "closed_groups titleRe {} = {1, 2}"
    by (simp add: titleRe_def lits_def insert_commute)
  with search_closed_groups [OF Some] have "1 \<in> fst ` set m" "2 \<in> fst ` set m" by auto
  then obtain t d where "map_of m 1 = Some t" "map_of m 2 = Some d"
    by (metis map_of_eq_None_iff not_Some_eq)
  with Some show ?thesis by (simp add: titleMatch_def)
qed

lemma scoreMatch_None_iff: "(scoreMatch l = None) = (search scoreRe l = None)"
proof (cases "search scoreRe l")
  case None
  then show ?thesis by (simp add: scoreMatch_def)
next
  case (Some m)
  have "closed_groups scoreRe {} = {1}"
    by (simp add: scoreRe_def lits_def litsI_def)
  with search_closed_groups [OF Some] have "1 \<in> fst ` set m" by auto
  then obtain d where "map_of m 1 = Some d"
    by (metis map_of_eq_None_iff not_Some_eq)
  with Some show ?thesis by (simp add: scoreMatch_def)
qed

lemma headingMatch_None_iff: "(headingMatch l = None) = (rmatch headingRe l [] [] = None)"
proof (cases "rmatch headingRe l [] []")
  case None
  then show ?thesis by (simp add: headingMatch_def)
next
  case (Some m)
  have "closed_groups headingRe (fst ` set []) = {1}"
    by (simp add: headingRe_def)
  with rmatch_closed_groups [OF Some] have "1 \<in> fst ` set m" by auto
  then obtain d where "map_of m 1 = Some d"
    by (metis map_of_eq_None_iff not_Some_eq)
  with Some show ?thesis by (simp add: headingMatch_def)
qed

text \<open>
  What a quantifier consumes, and what the group \<^verbatim>\<open>(\d+)\<close> of a score pattern
  captures: a non-empty string of digits, so \<^verbatim>\<open>parseInt\<close> always gets digits.
\<close>

lemma rmatch_Star:
  "rmatch (Star c # r) s ops caps = Some m \<Longrightarrow>
   \<exists>ds s'. s = ds @ s' \<and> (\<forall>x \<in> set ds. cc_match c x) \<and> rmatch r s' ops caps = Some m"
proof (induction s)
  case Nil
  then have h: "rmatch r [] ops caps = Some m" by simp
  show ?case by (intro exI [of _ "[]"]) (use h in simp)
next
  case (Cons x xs)
  show ?case
  proof (cases "cc_match c x \<and> rmatch (Star c # r) xs ops caps \<noteq> None")
    case True
    with Cons.prems have "rmatch (Star c # r) xs ops caps = Some m"
      by (auto split: option.splits)
    from Cons.IH [OF this] obtain ds s' where
      "xs = ds @ s'" "\<forall>y \<in> set ds. cc_match c y" "rmatch r s' ops caps = Some m"
      by blast
    with True have h: "x # xs = (x # ds) @ s' \<and> (\<forall>y \<in> set (x # ds). cc_match c y) \<and>
        rmatch r s' ops caps = Some m"
      by simp
    show ?thesis by (rule exI [of _ "x # ds"], rule exI [of _ s']) (rule h)
  next
    case False
    with Cons.prems have "rmatch r (x # xs) ops caps = Some m"
      by (auto split: option.splits if_splits)
    then have h: "x # xs = [] @ (x # xs) \<and> (\<forall>y \<in> set []. cc_match c y) \<and>
        rmatch r (x # xs) ops caps = Some m"
      by simp
    show ?thesis by (rule exI [of _ "[]"], rule exI [of _ "x # xs"]) (rule h)
  qed
qed

lemma rmatch_LazyStar:
  "rmatch (LazyStar c # r) s ops caps = Some m \<Longrightarrow>
   \<exists>ds s'. s = ds @ s' \<and> (\<forall>x \<in> set ds. cc_match c x) \<and> rmatch r s' ops caps = Some m"
proof (induction s)
  case Nil
  then have h: "rmatch r [] ops caps = Some m" by simp
  show ?case by (intro exI [of _ "[]"]) (use h in simp)
next
  case (Cons x xs)
  show ?case
  proof (cases "rmatch r (x # xs) ops caps")
    case (Some m')
    with Cons.prems have h: "x # xs = [] @ (x # xs) \<and> (\<forall>y \<in> set []. cc_match c y) \<and>
        rmatch r (x # xs) ops caps = Some m"
      by simp
    show ?thesis by (rule exI [of _ "[]"], rule exI [of _ "x # xs"]) (rule h)
  next
    case None
    with Cons.prems have x: "cc_match c x" and "rmatch (LazyStar c # r) xs ops caps = Some m"
      by (auto split: if_splits)
    from Cons.IH [OF this(2)] obtain ds s' where
      "xs = ds @ s'" "\<forall>y \<in> set ds. cc_match c y" "rmatch r s' ops caps = Some m"
      by blast
    with x have h: "x # xs = (x # ds) @ s' \<and> (\<forall>y \<in> set (x # ds). cc_match c y) \<and>
        rmatch r s' ops caps = Some m"
      by simp
    show ?thesis by (rule exI [of _ "x # ds"], rule exI [of _ s']) (rule h)
  qed
qed

lemma rmatch_Plus:
  "rmatch (Plus c # r) s ops caps = Some m \<Longrightarrow>
   \<exists>ds s'. s = ds @ s' \<and> ds \<noteq> [] \<and> (\<forall>x \<in> set ds. cc_match c x) \<and>
     rmatch r s' ops caps = Some m"
proof (cases s)
  case Nil
  assume "rmatch (Plus c # r) s ops caps = Some m"
  with Nil show ?thesis by simp
next
  case (Cons x xs)
  assume "rmatch (Plus c # r) s ops caps = Some m"
  with Cons have x: "cc_match c x" and "rmatch (Star c # r) xs ops caps = Some m"
    by (auto split: if_splits)
  from rmatch_Star [OF this(2)] obtain ds s' where
    "xs = ds @ s'" "\<forall>y \<in> set ds. cc_match c y" "rmatch r s' ops caps = Some m"
    by blast
  with x Cons have h: "s = (x # ds) @ s' \<and> x # ds \<noteq> [] \<and> (\<forall>y \<in> set (x # ds). cc_match c y) \<and>
      rmatch r s' ops caps = Some m"
    by simp
  show ?thesis by (rule exI [of _ "x # ds"], rule exI [of _ s']) (rule h)
qed

lemma rmatch_LazyPlus:
  "rmatch (LazyPlus c # r) s ops caps = Some m \<Longrightarrow>
   \<exists>ds s'. s = ds @ s' \<and> ds \<noteq> [] \<and> (\<forall>x \<in> set ds. cc_match c x) \<and>
     rmatch r s' ops caps = Some m"
proof (cases s)
  case Nil
  assume "rmatch (LazyPlus c # r) s ops caps = Some m"
  with Nil show ?thesis by simp
next
  case (Cons x xs)
  assume "rmatch (LazyPlus c # r) s ops caps = Some m"
  with Cons have x: "cc_match c x" and "rmatch (LazyStar c # r) xs ops caps = Some m"
    by (auto split: if_splits)
  from rmatch_LazyStar [OF this(2)] obtain ds s' where
    "xs = ds @ s'" "\<forall>y \<in> set ds. cc_match c y" "rmatch r s' ops caps = Some m"
    by blast
  with x Cons have h: "s = (x # ds) @ s' \<and> x # ds \<noteq> [] \<and> (\<forall>y \<in> set (x # ds). cc_match c y) \<and>
      rmatch r s' ops caps = Some m"
    by simp
  show ?thesis by (rule exI [of _ "x # ds"], rule exI [of _ s']) (rule h)
qed

text \<open>A match of a pattern passes through every tail of the pattern.\<close>

lemma rmatch_tail:
  "rmatch (r1 @ r2) s ops caps = Some m \<Longrightarrow>
   \<exists>s' ops' caps'. rmatch r2 s' ops' caps' = Some m"
proof (induction r1 arbitrary: s ops caps)
  case Nil
  then show ?case by auto
next
  case (Cons nd r1)
  show ?case
  proof (cases nd)
    case (One c)
    with Cons.prems obtain x xs where "s = x # xs" "rmatch (r1 @ r2) xs ops caps = Some m"
      by (cases s) (auto split: if_splits)
    then show ?thesis using Cons.IH by blast
  next
    case (Star c)
    with Cons.prems rmatch_Star [of c "r1 @ r2" s ops caps m] show ?thesis
      using Cons.IH by auto
  next
    case (LazyStar c)
    with Cons.prems rmatch_LazyStar [of c "r1 @ r2" s ops caps m] show ?thesis
      using Cons.IH by auto
  next
    case (Plus c)
    with Cons.prems rmatch_Plus [of c "r1 @ r2" s ops caps m] show ?thesis
      using Cons.IH by auto
  next
    case (LazyPlus c)
    with Cons.prems rmatch_LazyPlus [of c "r1 @ r2" s ops caps m] show ?thesis
      using Cons.IH by auto
  next
    case (Open n)
    with Cons.prems show ?thesis using Cons.IH by auto
  next
    case (Close n)
    with Cons.prems show ?thesis using Cons.IH by (auto split: option.splits)
  qed
qed

lemma search_tail:
  "search (r1 @ r2) s = Some m \<Longrightarrow> \<exists>s' ops' caps'. rmatch r2 s' ops' caps' = Some m"
proof (induction s)
  case Nil
  then show ?case using rmatch_tail [of r1 r2 "[]" "[]" "[]" m] by simp
next
  case (Cons x xs)
  show ?case
  proof (cases "rmatch (r1 @ r2) (x # xs) [] []")
    case None
    with Cons show ?thesis by simp
  next
    case (Some m')
    with Cons.prems have "rmatch (r1 @ r2) (x # xs) [] [] = Some m" by simp
    then show ?thesis by (rule rmatch_tail)
  qed
qed

lemma rmatch_capture_kept:
  "rmatch r s ops caps = Some m \<Longrightarrow> n \<notin> closes r \<Longrightarrow> map_of m n = map_of caps n"
  by (induction r s ops caps rule: rmatch.induct)
     (simp_all split: if_splits option.splits)

text \<open>The group \<^verbatim>\<open>(\d+)\<close>, followed by a tail that does not capture it again.\<close>

lemma rmatch_digits_group:
  assumes "rmatch (Open n # Plus Digit # Close n # r) s ops caps = Some m" "n \<notin> closes r"
  shows "\<exists>ds. map_of m n = Some ds \<and> ds \<noteq> [] \<and> (\<forall>c \<in> set ds. isDigit c)"
proof -
  from assms(1) have "rmatch (Plus Digit # Close n # r) s ((n, s) # ops) caps = Some m"
    by simp
  from rmatch_Plus [OF this] obtain ds s' where
    ds: "s = ds @ s'" "ds \<noteq> []" "\<forall>x \<in> set ds. cc_match Digit x"
    and "rmatch (Close n # r) s' ((n, s) # ops) caps = Some m"
    by blast
  then have "rmatch r s' ((n, s) # ops) ((n, ds) # caps) = Some m"
    by simp
  from rmatch_capture_kept [OF this assms(2)] have "map_of m n = Some ds"
    by simp
  with ds show ?thesis by auto
qed

lemma titleMatch_digits:
  assumes "titleMatch l = Some (t, d)"
  shows "d \<noteq> [] \<and> (\<forall>c \<in> set d. isDigit c)"
proof -
  let ?r1 = "lits ''**'' @ [Open 1, LazyPlus Dot, Close 1] @ lits ''**'' @ [LazyStar Dot]"
  let ?r = "[Star Space, One (Lit CHR ''/''), Star Space] @ lits ''10''"
  have re: "titleRe = ?r1 @ (Open 2 # Plus Digit # Close 2 # ?r)"
    by (simp add: titleRe_def)
  from assms obtain m where m: "search titleRe l = Some m" "map_of m 2 = Some d"
    by (auto simp: titleMatch_def split: option.splits)
  from m(1) obtain s ops caps where
    "rmatch (Open 2 # Plus Digit # Close 2 # ?r) s ops caps = Some m"
    unfolding re by (blast dest: search_tail)
  moreover have "2 \<notin> closes ?r" by (simp add: lits_def)
  ultimately obtain ds where "map_of m 2 = Some ds" "ds \<noteq> []" "\<forall>c \<in> set ds. isDigit c"
    by (blast dest: rmatch_digits_group)
  with m(2) show ?thesis by simp
qed

lemma scoreMatch_digits:
  assumes "scoreMatch l = Some d"
  shows "d \<noteq> [] \<and> (\<forall>c \<in> set d. isDigit c)"
proof -
  let ?r1 = "litsI ''Score'' @ [LazyStar Dot]"
  let ?r = "[Star Space, One (Lit CHR ''/''), Star Space] @ lits ''10''"
  have re: "scoreRe = ?r1 @ (Open 1 # Plus Digit # Close 1 # ?r)"
    by (simp add: scoreRe_def)
  from assms obtain m where m: "search scoreRe l = Some m" "map_of m 1 = Some d"
    by (auto simp: scoreMatch_def split: option.splits)
  from m(1) obtain s ops caps where
    "rmatch (Open 1 # Plus Digit # Close 1 # ?r) s ops caps = Some m"
    unfolding re by (blast dest: search_tail)
  moreover have "1 \<notin> closes ?r" by (simp add: lits_def)
  ultimately obtain ds where "map_of m 1 = Some ds" "ds \<noteq> []" "\<forall>c \<in> set ds. isDigit c"
    by (blast dest: rmatch_digits_group)
  with m(2) show ?thesis by simp
qed

lemma parseInt_snoc: "parseInt (ds @ [c]) = 10 * parseInt ds + (of_char c - 48)"
  by (simp add: parseInt_def)

lemma isDigit_value: "isDigit c \<Longrightarrow> (of_char c - (48::nat) = 0) = (c = CHR ''0'')"
  by (auto simp: isDigit_def)

lemma parseInt_zero_iff:
  "\<forall>c \<in> set ds. isDigit c \<Longrightarrow> (parseInt ds = 0) = (\<forall>c \<in> set ds. c = CHR ''0'')"
proof (induction ds rule: rev_induct)
  case Nil
  then show ?case by (simp add: parseInt_def)
next
  case (snoc c ds)
  then have d: "isDigit c" and digits: "\<forall>c \<in> set ds. isDigit c" by simp_all
  from snoc.IH digits have ih: "(parseInt ds = 0) = (\<forall>c \<in> set ds. c = CHR ''0'')" by blast
  have "(parseInt (ds @ [c]) = 0) = (parseInt ds = 0 \<and> of_char c - (48::nat) = 0)"
    by (simp add: parseInt_snoc)
  also have "\<dots> = ((\<forall>c \<in> set ds. c = CHR ''0'') \<and> c = CHR ''0'')"
    by (simp only: ih isDigit_value [OF d])
  finally show ?case by (simp add: ball_Un conj_commute)
qed

section \<open>Parsing of a section: the score is optional\<close>

lemma parse_lines_no_match:
  "\<forall>l \<in> set ls. titleMatch l = None \<and> scoreMatch l = None \<Longrightarrow>
   snd (parse_lines ls ttl sc) = sc"
  by (induction ls arbitrary: ttl sc) auto

lemma parse_lines_score_pattern:
  "\<exists>l \<in> set ls. titleMatch l \<noteq> None \<or> scoreMatch l \<noteq> None \<Longrightarrow>
   snd (parse_lines ls ttl sc) \<noteq> None"
proof (induction ls arbitrary: ttl sc)
  case Nil
  then show ?case by simp
next
  case (Cons l ls)
  show ?case
  proof (cases "titleMatch l")
    case (Some td)
    then show ?thesis by (cases td) simp
  next
    case None
    note no_title = None
    show ?thesis
    proof (cases "\<exists>l' \<in> set ls. titleMatch l' \<noteq> None \<or> scoreMatch l' \<noteq> None")
      case True
      then show ?thesis using no_title Cons.IH by simp
    next
      case False
      then have rest: "\<forall>l' \<in> set ls. titleMatch l' = None \<and> scoreMatch l' = None"
        by blast
      from Cons.prems False no_title obtain d where d: "scoreMatch l = Some d"
        by auto
      show ?thesis
        using no_title d parse_lines_no_match [OF rest] by simp
    qed
  qed
qed

lemma parse_lines_title_line:
  "\<forall>l \<in> set pre. titleMatch l = None \<Longrightarrow> titleMatch l = Some (t, d) \<Longrightarrow>
   parse_lines (pre @ l # post) ttl sc = (t, Some (parseInt d))"
  by (induction pre arbitrary: ttl sc) auto

lemma parse_lines_score_line:
  "\<forall>l \<in> set pre. titleMatch l = None \<Longrightarrow> titleMatch l = None \<Longrightarrow>
   scoreMatch l = Some d \<Longrightarrow>
   \<forall>l \<in> set post. titleMatch l = None \<and> scoreMatch l = None \<Longrightarrow>
   snd (parse_lines (pre @ l # post) ttl sc) = Some (parseInt d)"
  by (induction pre arbitrary: ttl sc) (auto simp: parse_lines_no_match)

lemma score_parseSection:
  "score (parseSection txt) = snd (parse_lines (section_lines txt) ''Review'' None)"
  by (simp add: parseSection_def split: prod.splits)

lemma parse_lines_score_source:
  "snd (parse_lines ls ttl sc) = Some n \<Longrightarrow>
   sc = Some n \<or>
   (\<exists>l \<in> set ls. \<exists>d. n = parseInt d \<and> ((\<exists>t. titleMatch l = Some (t, d)) \<or> scoreMatch l = Some d))"
proof (induction ls arbitrary: ttl sc)
  case Nil
  then show ?case by simp
next
  case (Cons l ls)
  show ?case
  proof (cases "titleMatch l")
    case (Some td)
    obtain t d where td: "td = (t, d)" by (cases td)
    with Some Cons.prems have "n = parseInt d" by simp
    with Some td show ?thesis by auto
  next
    case None
    let ?sc = "case scoreMatch l of None \<Rightarrow> sc | Some d \<Rightarrow> Some (parseInt d)"
    from None Cons.prems obtain ttl' where "snd (parse_lines ls ttl' ?sc) = Some n"
      by auto
    from Cons.IH [OF this] consider "?sc = Some n"
      | "\<exists>l \<in> set ls. \<exists>d. n = parseInt d \<and>
           ((\<exists>t. titleMatch l = Some (t, d)) \<or> scoreMatch l = Some d)"
      by blast
    then show ?thesis
    proof cases
      case 1
      then show ?thesis by (cases "scoreMatch l") auto
    next
      case 2
      then show ?thesis by auto
    qed
  qed
qed

lemma parseSection_zero_source:
  assumes "score (parseSection txt) = Some 0"
  shows "\<exists>l \<in> set (section_lines txt). \<exists>d. d \<noteq> [] \<and> (\<forall>c \<in> set d. c = CHR ''0'') \<and>
           ((\<exists>t. titleMatch l = Some (t, d)) \<or> scoreMatch l = Some d)"
proof -
  from assms have "snd (parse_lines (section_lines txt) ''Review'' None) = Some 0"
    by (simp add: score_parseSection)
  from parse_lines_score_source [OF this] obtain l d where
    l: "l \<in> set (section_lines txt)" and z: "parseInt d = 0"
    and d: "(\<exists>t. titleMatch l = Some (t, d)) \<or> scoreMatch l = Some d"
    by auto
  from d have digits: "d \<noteq> [] \<and> (\<forall>c \<in> set d. isDigit c)"
    using titleMatch_digits scoreMatch_digits by blast
  with z have "\<forall>c \<in> set d. c = CHR ''0''"
    by (simp add: parseInt_zero_iff)
  with l d digits show ?thesis by blast
qed

text \<open>
  Claim C1. The score of a parsed section is optional. It is absent exactly when neither
  score pattern (the bold title with a fraction over 10, the word Score with a fraction
  over 10) matches a line of the section; absence is \<open>None\<close>, never the number zero:
  the score is the number 0 only when a line of the section matched a score pattern
  whose digits are all \<^verbatim>\<open>0\<close>. When the line that decides the score (the first line
  with a bold title and a fraction, or else the last line with the word Score and a
  fraction) carries digits that stand for zero, the score is the number 0, which is not
  absence.
\<close>

theorem parseSection_score_optional:
  "((score (parseSection txt) = None) =
      (\<forall>l \<in> set (section_lines txt). titleMatch l = None \<and> scoreMatch l = None)) \<and>
   (score (parseSection txt) = Some 0 \<longrightarrow>
      (\<exists>l \<in> set (section_lines txt). \<exists>d. d \<noteq> [] \<and> (\<forall>c \<in> set d. c = CHR ''0'') \<and>
         ((\<exists>t. titleMatch l = Some (t, d)) \<or> scoreMatch l = Some d))) \<and>
   (\<forall>pre l post t d.
      section_lines txt = pre @ l # post \<and> (\<forall>k \<in> set pre. titleMatch k = None) \<and>
      titleMatch l = Some (t, d) \<and> parseInt d = 0 \<longrightarrow>
      score (parseSection txt) = Some 0 \<and> score (parseSection txt) \<noteq> None) \<and>
   (\<forall>pre l post d.
      section_lines txt = pre @ l # post \<and> (\<forall>k \<in> set pre. titleMatch k = None) \<and>
      titleMatch l = None \<and> scoreMatch l = Some d \<and>
      (\<forall>k \<in> set post. titleMatch k = None \<and> scoreMatch k = None) \<and> parseInt d = 0 \<longrightarrow>
      score (parseSection txt) = Some 0 \<and> score (parseSection txt) \<noteq> None)"
proof -
  have absent: "(score (parseSection txt) = None) =
     (\<forall>l \<in> set (section_lines txt). titleMatch l = None \<and> scoreMatch l = None)"
    using parse_lines_no_match [of "section_lines txt" "''Review''" None]
      parse_lines_score_pattern [of "section_lines txt" "''Review''" None]
    unfolding score_parseSection by blast
  have zero: "score (parseSection txt) = Some 0 \<longrightarrow>
      (\<exists>l \<in> set (section_lines txt). \<exists>d. d \<noteq> [] \<and> (\<forall>c \<in> set d. c = CHR ''0'') \<and>
         ((\<exists>t. titleMatch l = Some (t, d)) \<or> scoreMatch l = Some d))"
    by (rule impI) (rule parseSection_zero_source)
  have by_title: "score (parseSection txt) = Some 0 \<and> score (parseSection txt) \<noteq> None"
    if "section_lines txt = pre @ l # post \<and> (\<forall>k \<in> set pre. titleMatch k = None) \<and>
      titleMatch l = Some (t, d) \<and> parseInt d = 0" for pre l post t d
    using that by (simp add: score_parseSection parse_lines_title_line)
  have by_score: "score (parseSection txt) = Some 0 \<and> score (parseSection txt) \<noteq> None"
    if "section_lines txt = pre @ l # post \<and> (\<forall>k \<in> set pre. titleMatch k = None) \<and>
      titleMatch l = None \<and> scoreMatch l = Some d \<and>
      (\<forall>k \<in> set post. titleMatch k = None \<and> scoreMatch k = None) \<and> parseInt d = 0"
    for pre l post d
    using that by (simp add: score_parseSection parse_lines_score_line)
  show ?thesis
  proof (intro conjI)
    show "(score (parseSection txt) = None) =
      (\<forall>l \<in> set (section_lines txt). titleMatch l = None \<and> scoreMatch l = None)"
      by (rule absent)
    show "score (parseSection txt) = Some 0 \<longrightarrow>
      (\<exists>l \<in> set (section_lines txt). \<exists>d. d \<noteq> [] \<and> (\<forall>c \<in> set d. c = CHR ''0'') \<and>
         ((\<exists>t. titleMatch l = Some (t, d)) \<or> scoreMatch l = Some d))"
      by (rule zero)
    show "\<forall>pre l post t d.
      section_lines txt = pre @ l # post \<and> (\<forall>k \<in> set pre. titleMatch k = None) \<and>
      titleMatch l = Some (t, d) \<and> parseInt d = 0 \<longrightarrow>
      score (parseSection txt) = Some 0 \<and> score (parseSection txt) \<noteq> None"
      by (intro allI impI) (rule by_title)
    show "\<forall>pre l post d.
      section_lines txt = pre @ l # post \<and> (\<forall>k \<in> set pre. titleMatch k = None) \<and>
      titleMatch l = None \<and> scoreMatch l = Some d \<and>
      (\<forall>k \<in> set post. titleMatch k = None \<and> scoreMatch k = None) \<and> parseInt d = 0 \<longrightarrow>
      score (parseSection txt) = Some 0 \<and> score (parseSection txt) \<noteq> None"
      by (intro allI impI) (rule by_score)
  qed
qed

theorem parseSection_score_optional_witness:
  "score (parseSection ''Looks fine.'') = None \<and>
   score (parseSection ''**Security** (0/10)'') = Some 0 \<and>
   score (parseSection ''## Performance\<newline>Score: 0/10\<newline>Slow.'') = Some 0"
proof -
  have a: "\<forall>l \<in> set (section_lines ''Looks fine.'').
             titleMatch l = None \<and> scoreMatch l = None"
    by code_simp
  have b: "section_lines ''**Security** (0/10)'' = [] @ ''**Security** (0/10)'' # [] \<and>
           (\<forall>k \<in> set []. titleMatch k = None) \<and>
           titleMatch ''**Security** (0/10)'' = Some (''Security'', ''0'') \<and>
           parseInt ''0'' = 0"
    by code_simp
  have c: "section_lines ''## Performance\<newline>Score: 0/10\<newline>Slow.'' =
             [''## Performance''] @ ''Score: 0/10'' # [''Slow.''] \<and>
           (\<forall>k \<in> set [''## Performance'']. titleMatch k = None) \<and>
           titleMatch ''Score: 0/10'' = None \<and> scoreMatch ''Score: 0/10'' = Some ''0'' \<and>
           (\<forall>k \<in> set [''Slow.'']. titleMatch k = None \<and> scoreMatch k = None) \<and>
           parseInt ''0'' = 0"
    by code_simp
  from a parseSection_score_optional [of "''Looks fine.''"]
  have 1: "score (parseSection ''Looks fine.'') = None"
    by blast
  from b parseSection_score_optional [of "''**Security** (0/10)''"]
  have 2: "score (parseSection ''**Security** (0/10)'') = Some 0"
    by blast
  from c parseSection_score_optional [of "''## Performance\<newline>Score: 0/10\<newline>Slow.''"]
  have 3: "score (parseSection ''## Performance\<newline>Score: 0/10\<newline>Slow.'') = Some 0"
    by blast
  from 1 2 3 show ?thesis by simp
qed

section \<open>Parsing of a section: the title\<close>

lemma parse_lines_title_kept:
  "\<forall>l \<in> set ls. titleMatch l = None \<Longrightarrow> ttl \<noteq> [] \<Longrightarrow> fst (parse_lines ls ttl sc) = ttl"
  by (induction ls arbitrary: ttl sc) (auto split: option.splits)

lemma parseSection_title_without_bold:
  "\<forall>l \<in> set (section_lines txt). titleMatch l = None \<Longrightarrow> title (parseSection txt) = ''Review''"
  using parse_lines_title_kept [of "section_lines txt" "''Review''" None]
  by (cases "parse_lines (section_lines txt) ''Review'' None") (simp add: parseSection_def)

text \<open>
  Claim C2. The parser is to take the title of a part from its first markdown heading.
  In the code the heading is assigned only under the guard \<^verbatim>\<open>!title\<close>, and the
  title starts as the non-empty string \<^verbatim>\<open>Review\<close>, so the guard never holds: on
  the part below the first line is a heading with the text \<^verbatim>\<open>Security\<close>, no line
  carries a bold title with a fraction, and the parsed title is \<^verbatim>\<open>Review\<close>.
\<close>

theorem parseSection_heading_not_title:
  "section_lines ''# Security\<newline>Looks fine.'' = [''# Security'', ''Looks fine.''] \<and>
   headingMatch ''# Security'' = Some ''Security'' \<and>
   titleMatch ''# Security'' = None \<and> titleMatch ''Looks fine.'' = None \<and>
   title (parseSection ''# Security\<newline>Looks fine.'') = ''Review'' \<and>
   title (parseSection ''# Security\<newline>Looks fine.'') \<noteq> ''Security''"
  by code_simp

section \<open>Splitting a reply into sections\<close>

lemma js_trim_nonempty: "(js_trim s \<noteq> []) = (\<exists>c \<in> set s. \<not> isWhiteSpace c)"
proof (cases "dropWhile isWhiteSpace s")
  case Nil
  then show ?thesis by (auto simp: js_trim_def dest: set_dropWhileD)
next
  case (Cons y ys)
  then have y: "\<not> isWhiteSpace y" "y \<in> set s"
    by (simp_all add: dropWhile_eq_Cons_conv) (metis in_set_conv_decomp)
  have "y \<in> set (rev (dropWhile isWhiteSpace s))"
    using Cons by simp
  with y have "dropWhile isWhiteSpace (rev (dropWhile isWhiteSpace s)) \<noteq> []"
    by (auto simp: dropWhile_eq_Nil_conv simp del: set_rev)
  with y show ?thesis by (auto simp: js_trim_def)
qed

lemma split_from_nonempty: "split_from sep acc s \<noteq> []"
  by (induction sep acc s rule: split_from.induct) auto

lemma js_join_Cons: "js_join (p # ps) sep = (if ps = [] then p else p @ sep @ js_join ps sep)"
  by (cases ps) simp_all

lemma js_join_split_from: "sep \<noteq> [] \<Longrightarrow> js_join (split_from sep acc s) sep = rev acc @ s"
proof (induction sep acc s rule: split_from.induct)
  case (1 sep acc)
  then show ?case by simp
next
  case (2 sep acc c cs)
  show ?case
  proof (cases "prefix sep (c # cs)")
    case True
    then have "sep @ drop (length sep) (c # cs) = c # cs"
      by (metis append_eq_conv_conj prefix_def)
    with 2 True show ?thesis
      by (simp add: js_join_Cons split_from_nonempty del: drop.simps)
  next
    case False
    with 2 show ?thesis by simp
  qed
qed

lemma js_join_js_split: "sep \<noteq> [] \<Longrightarrow> js_join (js_split s sep) sep = s"
  by (simp add: js_split_def js_join_split_from)

lemma js_includes_iff: "js_includes s sub = (\<exists>u v. s = u @ sub @ v)"
proof (induction s)
  case Nil
  then show ?case by auto
next
  case (Cons c cs)
  show ?case
  proof
    assume "js_includes (c # cs) sub"
    then consider "prefix sub (c # cs)" | "js_includes cs sub" by auto
    then show "\<exists>u v. c # cs = u @ sub @ v"
    proof cases
      case 1
      then obtain v where "c # cs = sub @ v" by (auto simp: prefix_def)
      then have "c # cs = [] @ sub @ v" by simp
      then show ?thesis by blast
    next
      case 2
      with Cons obtain u v where "cs = u @ sub @ v" by auto
      then have "c # cs = (c # u) @ sub @ v" by simp
      then show ?thesis by blast
    qed
  next
    assume "\<exists>u v. c # cs = u @ sub @ v"
    then obtain u v where uv: "c # cs = u @ sub @ v" by auto
    show "js_includes (c # cs) sub"
    proof (cases u)
      case Nil
      with uv have "prefix sub (c # cs)" by (simp add: prefix_def)
      then show ?thesis by simp
    next
      case (Cons a u')
      with uv have "cs = u' @ sub @ v" by simp
      with Cons.IH show ?thesis by auto
    qed
  qed
qed

lemma split_from_parts:
  "sep \<noteq> [] \<Longrightarrow> \<forall>u v. rev acc @ s = u @ sep @ v \<longrightarrow> length acc \<le> length u \<Longrightarrow>
   p \<in> set (split_from sep acc s) \<Longrightarrow> \<not> js_includes p sep"
proof (induction sep acc s rule: split_from.induct)
  case (1 sep acc)
  show ?case
  proof
    assume "js_includes p sep"
    with 1 obtain u v where uv: "rev acc = u @ sep @ v" by (auto simp: js_includes_iff)
    with 1 have "length acc \<le> length u" by simp
    moreover from uv have "length acc = length u + length sep + length v"
      by (metis length_append length_rev add.assoc)
    ultimately show False using 1(1) by simp
  qed
next
  case (2 sep acc c cs)
  show ?case
  proof (cases "prefix sep (c # cs)")
    case True
    with 2(3,5) consider "p = rev acc" | "p \<in> set (split_from sep [] (drop (length sep) (c # cs)))"
      by (auto simp del: drop.simps)
    then show ?thesis
    proof cases
      case 1
      show ?thesis
      proof
        assume "js_includes p sep"
        with 1 obtain u v where uv: "rev acc = u @ sep @ v" by (auto simp: js_includes_iff)
        then have "rev acc @ c # cs = u @ sep @ (v @ c # cs)" by simp
        with 2(4) have "length acc \<le> length u" by blast
        moreover from uv have "length acc = length u + length sep + length v"
          by (metis length_append length_rev add.assoc)
        ultimately show False using 2(3) by simp
      qed
    next
      case 2
      from "2.IH"(1) [OF _ "2.prems"(1) _ 2] True "2.prems"(1) show ?thesis by simp
    qed
  next
    case False
    have inv: "\<forall>u v. rev (c # acc) @ cs = u @ sep @ v \<longrightarrow> length (c # acc) \<le> length u"
    proof (intro allI impI)
      fix u v
      assume uv: "rev (c # acc) @ cs = u @ sep @ v"
      then have uv': "rev acc @ c # cs = u @ sep @ v" by simp
      with 2(4) have le: "length acc \<le> length u" by blast
      have "length u \<noteq> length acc"
      proof
        assume "length u = length acc"
        with uv' have "c # cs = sep @ v" by (metis append_eq_append_conv length_rev)
        with False show False by (simp add: prefix_def)
      qed
      with le show "length (c # acc) \<le> length u" by simp
    qed
    from False "2.prems"(3) have "p \<in> set (split_from sep (c # acc) cs)" by simp
    from "2.IH"(2) [OF _ "2.prems"(1) inv this] False show ?thesis by simp
  qed
qed

lemma js_split_parts: "sep \<noteq> [] \<Longrightarrow> p \<in> set (js_split s sep) \<Longrightarrow> \<not> js_includes p sep"
  using split_from_parts [of sep "[]" s p] by (simp add: js_split_def)

lemma content_parseSection: "content (parseSection txt) = js_trim txt"
  by (cases "parse_lines (section_lines txt) ''Review'' None") (simp add: parseSection_def)

text \<open>
  Claim C7. The sections of a reply are the parts obtained by splitting it at the token
  \<^verbatim>\<open>---REVIEW_BREAK---\<close>, in their order, without the parts that consist of white
  space only. The parts are a splitting of the reply: joined again with the token they
  give the reply back, and no part contains the token. Each kept part is parsed into one
  section, whose content is the trimmed part.
\<close>

theorem sections_split_on_break:
  "sections review =
     filter (\<lambda>p. \<exists>c \<in> set p. \<not> isWhiteSpace c) (js_split review ''---REVIEW_BREAK---'') \<and>
   js_join (js_split review ''---REVIEW_BREAK---'') ''---REVIEW_BREAK---'' = review \<and>
   (\<forall>p \<in> set (js_split review ''---REVIEW_BREAK---''). \<not> js_includes p ''---REVIEW_BREAK---'') \<and>
   length (parsed review) = length (sections review) \<and>
   map content (parsed review) = map js_trim (sections review)"
proof (intro conjI ballI)
  show "sections review =
     filter (\<lambda>p. \<exists>c \<in> set p. \<not> isWhiteSpace c) (js_split review ''---REVIEW_BREAK---'')"
    by (simp add: sections_def js_trim_nonempty)
  show "js_join (js_split review ''---REVIEW_BREAK---'') ''---REVIEW_BREAK---'' = review"
    by (rule js_join_js_split) simp
  show "length (parsed review) = length (sections review)"
    by (simp add: parsed_def)
  show "map content (parsed review) = map js_trim (sections review)"
    by (simp add: parsed_def content_parseSection)
next
  fix p
  assume "p \<in> set (js_split review ''---REVIEW_BREAK---'')"
  then show "\<not> js_includes p ''---REVIEW_BREAK---''"
    by (rule js_split_parts [rotated]) simp
qed

theorem sections_split_on_break_witness:
  "js_split ''# A\<newline>ok---REVIEW_BREAK--- \<newline>---REVIEW_BREAK---**B** 3/10'' ''---REVIEW_BREAK---'' =
     [''# A\<newline>ok'', '' \<newline>'', ''**B** 3/10''] \<and>
   sections ''# A\<newline>ok---REVIEW_BREAK--- \<newline>---REVIEW_BREAK---**B** 3/10'' =
     [''# A\<newline>ok'', ''**B** 3/10''] \<and>
   \<not> js_includes ''# A\<newline>ok'' ''---REVIEW_BREAK---'' \<and>
   length (parsed ''# A\<newline>ok---REVIEW_BREAK--- \<newline>---REVIEW_BREAK---**B** 3/10'') = 2"
proof -
  let ?r = "''# A\<newline>ok---REVIEW_BREAK--- \<newline>---REVIEW_BREAK---**B** 3/10''"
  have parts: "js_split ?r ''---REVIEW_BREAK---'' = [''# A\<newline>ok'', '' \<newline>'', ''**B** 3/10'']"
    by code_simp
  have kept: "filter (\<lambda>p. \<exists>c \<in> set p. \<not> isWhiteSpace c)
      [''# A\<newline>ok'', '' \<newline>'', ''**B** 3/10''] = [''# A\<newline>ok'', ''**B** 3/10'']"
    by code_simp
  note inst = sections_split_on_break [of ?r]
  from inst parts kept have secs: "sections ?r = [''# A\<newline>ok'', ''**B** 3/10'']"
    by simp
  from inst parts have "\<not> js_includes ''# A\<newline>ok'' ''---REVIEW_BREAK---''"
    by simp
  moreover from inst secs have "length (parsed ?r) = 2"
    by simp
  ultimately show ?thesis using parts secs by simp
qed

section \<open>The score cards\<close>

text \<open>
  Claim C10. The grid of score cards is rendered exactly when more than one section was
  parsed. Its cards are made from sections whose score is present, there are at most
  five of them (five, or all scored sections when there are fewer), and they stand in
  the order of the sections: the cards come from the first scored sections, a
  subsequence of the parsed sections.
\<close>

theorem scoreCards_grid:
  "(scoreCards ps \<noteq> None) = (length ps > 1) \<and>
   (\<forall>cs. scoreCards ps = Some cs \<longrightarrow>
      length cs \<le> 5 \<and>
      length cs = min 5 (length (filter (\<lambda>p. score p \<noteq> None) ps)) \<and>
      (\<forall>c \<in> set cs. card_score c \<noteq> None) \<and>
      (\<exists>qs. cs = map scoreCard qs \<and> subseq qs ps \<and> (\<forall>q \<in> set qs. score q \<noteq> None) \<and>
            prefix qs (filter (\<lambda>p. score p \<noteq> None) ps)))"
proof (intro conjI allI impI)
  show "(scoreCards ps \<noteq> None) = (length ps > 1)"
    by (simp add: scoreCards_def)
next
  fix cs
  assume a: "scoreCards ps = Some cs"
  let ?qs = "take 5 (filter (\<lambda>p. score p \<noteq> None) ps)"
  from a have cs: "cs = map scoreCard ?qs"
    by (simp add: scoreCards_def split: if_splits)
  have scored: "\<forall>q \<in> set ?qs. score q \<noteq> None"
    by (auto dest: in_set_takeD)
  show "length cs \<le> 5" by (simp add: cs)
  show "length cs = min 5 (length (filter (\<lambda>p. score p \<noteq> None) ps))"
    by (simp add: cs min.commute)
  show "\<forall>c \<in> set cs. card_score c \<noteq> None"
  proof
    fix c
    assume "c \<in> set cs"
    then obtain q where q: "q \<in> set ?qs" "c = scoreCard q"
      unfolding cs by (metis (no_types) imageE list.set_map)
    from scored q(1) have "score q \<noteq> None" by (rule bspec)
    then show "card_score c \<noteq> None" by (simp add: q(2) scoreCard_def)
  qed
  have sub: "subseq ?qs ps"
    by (rule subseq_order.trans [OF prefix_imp_subseq [OF take_is_prefix] subseq_filter_left])
  have pre: "prefix ?qs (filter (\<lambda>p. score p \<noteq> None) ps)"
    by (rule take_is_prefix)
  show "\<exists>qs. cs = map scoreCard qs \<and> subseq qs ps \<and> (\<forall>q \<in> set qs. score q \<noteq> None) \<and>
            prefix qs (filter (\<lambda>p. score p \<noteq> None) ps)"
    by (rule exI [of _ ?qs]) (use cs sub scored pre in blast)
qed

theorem scoreCards_grid_witness:
  "scoreCards (map (\<lambda>(t, s). \<lparr>title = t, score = s, content = t\<rparr>)
      [(''Security'', Some 8), (''Notes'', None), (''Speed'', Some 3), (''Design'', Some 9),
       (''Tests'', Some 6), (''Docs'', Some 10), (''Style'', Some 0)]) =
     Some [\<lparr>card_emoji = CheckMark, card_color = ''#22c55e'', card_score = Some 8,
              card_title = ''Security''\<rparr>,
           \<lparr>card_emoji = RotatingLight, card_color = ''#ef4444'', card_score = Some 3,
              card_title = ''Speed''\<rparr>,
           \<lparr>card_emoji = Trophy, card_color = ''#22c55e'', card_score = Some 9,
              card_title = ''Design''\<rparr>,
           \<lparr>card_emoji = WarningSign, card_color = ''#eab308'', card_score = Some 6,
              card_title = ''Tests''\<rparr>,
           \<lparr>card_emoji = Trophy, card_color = ''#22c55e'', card_score = Some 10,
              card_title = ''Docs''\<rparr>] \<and>
   scoreCards [\<lparr>title = ''Security'', score = Some 8, content = ''Security''\<rparr>] = None"
proof -
  let ?ps = "map (\<lambda>(t, s). \<lparr>title = t, score = s, content = t\<rparr>)
      [(''Security'', Some 8), (''Notes'', None), (''Speed'', Some 3), (''Design'', Some 9),
       (''Tests'', Some 6), (''Docs'', Some 10), (''Style'', Some (0::nat))]"
  let ?one = "[\<lparr>title = ''Security'', score = Some (8::nat), content = ''Security''\<rparr>]"
  let ?cs = "map scoreCard (take 5 (filter (\<lambda>p. score p \<noteq> None) ?ps))"
  have single: "\<not> 1 < length ?one" by simp
  have 1: "scoreCards ?ps = Some ?cs"
    by (simp add: scoreCards_def)
  note facts = scoreCards_grid [of ?ps, THEN conjunct2, rule_format, OF 1]
  from facts have 2: "length ?cs \<le> 5" by (rule conjunct1)
  from scoreCards_grid [of ?one, THEN conjunct1] single have 3: "scoreCards ?one = None"
    by simp
  have 4: "?cs = [\<lparr>card_emoji = CheckMark, card_color = ''#22c55e'', card_score = Some 8,
              card_title = ''Security''\<rparr>,
           \<lparr>card_emoji = RotatingLight, card_color = ''#ef4444'', card_score = Some 3,
              card_title = ''Speed''\<rparr>,
           \<lparr>card_emoji = Trophy, card_color = ''#22c55e'', card_score = Some 9,
              card_title = ''Design''\<rparr>,
           \<lparr>card_emoji = WarningSign, card_color = ''#eab308'', card_score = Some 6,
              card_title = ''Tests''\<rparr>,
           \<lparr>card_emoji = Trophy, card_color = ''#22c55e'', card_score = Some 10,
              card_title = ''Docs''\<rparr>]"
    by (simp add: scoreCard_def getScoreColor_def getScoreEmoji_def)
  from 1 2 3 show ?thesis unfolding 4 by simp
qed

section \<open>Submitting a repository reference\<close>

text \<open>
  A reference of the repository shape contains the text that the handler looks for and
  is not blank, so the handler never refuses it.
\<close>

lemma js_trim_infix: "\<exists>u v. s = u @ js_trim s @ v"
proof -
  let ?t = "dropWhile isWhiteSpace s"
  have 1: "s = takeWhile isWhiteSpace s @ ?t" by simp
  have "js_trim s @ rev (takeWhile isWhiteSpace (rev ?t)) =
      rev (takeWhile isWhiteSpace (rev ?t) @ dropWhile isWhiteSpace (rev ?t))"
    unfolding js_trim_def by (simp only: rev_append)
  also have "\<dots> = rev (rev ?t)" by (simp only: takeWhile_dropWhile_id)
  finally have 2: "?t = js_trim s @ rev (takeWhile isWhiteSpace (rev ?t))" by simp
  from 1 2 have "s = takeWhile isWhiteSpace s @ js_trim s @ rev (takeWhile isWhiteSpace (rev ?t))"
    by metis
  then show ?thesis by blast
qed

lemma js_includes_infix: "js_includes r sub \<Longrightarrow> s = u @ r @ v \<Longrightarrow> js_includes s sub"
proof -
  assume "js_includes r sub" "s = u @ r @ v"
  then obtain a b where "r = a @ sub @ b" "s = u @ r @ v" by (auto simp: js_includes_iff)
  then have "s = (u @ a) @ sub @ (b @ v)" by simp
  then show ?thesis unfolding js_includes_iff by blast
qed

lemma after_prefix_Some: "after_prefix p s = Some q \<Longrightarrow> s = p @ q"
  by (auto simp: after_prefix_def prefix_def split: if_splits)

lemma repository_shape_accepted:
  assumes "repository_shape ref"
  shows "js_includes ref ''github.com'' \<and> js_trim ref \<noteq> []"
proof -
  let ?r = "js_trim ref"
  from assms consider p where "after_prefix ''https://github.com/'' ?r = Some p"
    | p where "after_prefix ''http://github.com/'' ?r = Some p"
    by (auto simp: repository_shape_def Let_def split: option.splits)
  then have "(\<exists>a b. ?r = a @ ''github.com'' @ b)"
  proof cases
    case 1
    then have "?r = ''https://'' @ ''github.com'' @ (''/'' @ p)"
      by (auto dest: after_prefix_Some)
    then show ?thesis by blast
  next
    case 2
    then have "?r = ''http://'' @ ''github.com'' @ (''/'' @ p)"
      by (auto dest: after_prefix_Some)
    then show ?thesis by blast
  qed
  then have inc: "js_includes ?r ''github.com''" and ne: "?r \<noteq> []"
    by (auto simp: js_includes_iff)
  from js_trim_infix [of ref] obtain u v where "ref = u @ ?r @ v" by blast
  with inc have "js_includes ref ''github.com''" by (rule js_includes_infix)
  with ne show ?thesis by simp
qed

text \<open>
  Claim C3, as stated: for every reference without a recognizable host and path, the
  handler sets an error message and sends no create request. Two references without
  the shape show otherwise. The blank reference, which the handler receives when the
  button is pressed on the empty form (the field is not required): the handler returns
  at once, it sends no request but sets no error message either. And the reference
  \<^verbatim>\<open>https://evil.example/?q=github.com\<close>, whose host is not the repository host: it
  contains the text \<^verbatim>\<open>github.com\<close>, which is all the handler tests, and the create
  request is sent.
\<close>

theorem handleSubmit_shapeless_counterexample:
  "\<not> repository_shape '''' \<and>
   handleSubmit \<lparr>repoUrl = '''', loading = False, error = ''''\<rparr> =
     (\<lparr>repoUrl = '''', loading = False, error = ''''\<rparr>, None) \<and>
   \<not> repository_shape ''https://evil.example/?q=github.com'' \<and>
   handleSubmit \<lparr>repoUrl = ''https://evil.example/?q=github.com'', loading = False, error = ''''\<rparr> =
     (\<lparr>repoUrl = ''https://evil.example/?q=github.com'', loading = True, error = ''''\<rparr>,
      Some (PostGenerate ''https://evil.example/?q=github.com''))"
  by code_simp

text \<open>
  Claim C3, amended. For a reference without the repository shape the handler does one
  of three things. When the reference is not blank and does not contain the text
  \<^verbatim>\<open>github.com\<close>, submission fails at once: the error message
  \<^verbatim>\<open>Please enter a valid GitHub repository URL\<close> is set and no create request is
  sent. When it is blank, the handler leaves the page as it is: no request and no
  error message. When it is not blank and contains the text \<^verbatim>\<open>github.com\<close>
  anywhere, the basic check of the handler does not refuse it and the create request
  is sent with the trimmed reference. A reference of the repository shape is always
  sent, so whatever the handler refuses lacks the shape.
\<close>

theorem handleSubmit_by_shape:
  "(\<not> repository_shape (repoUrl st) \<and> js_trim (repoUrl st) \<noteq> [] \<and>
      \<not> js_includes (repoUrl st) ''github.com'' \<longrightarrow>
      handleSubmit st = (st\<lparr>error := ''Please enter a valid GitHub repository URL''\<rparr>, None)) \<and>
   (\<not> repository_shape (repoUrl st) \<and> js_trim (repoUrl st) = [] \<longrightarrow>
      handleSubmit st = (st, None)) \<and>
   (\<not> repository_shape (repoUrl st) \<and> js_trim (repoUrl st) \<noteq> [] \<and>
      js_includes (repoUrl st) ''github.com'' \<longrightarrow>
      snd (handleSubmit st) = Some (PostGenerate (js_trim (repoUrl st)))) \<and>
   (repository_shape (repoUrl st) \<longrightarrow>
      handleSubmit st =
        (st\<lparr>error := [], loading := True\<rparr>, Some (PostGenerate (js_trim (repoUrl st))))) \<and>
   (snd (handleSubmit st) = None \<longrightarrow> \<not> repository_shape (repoUrl st))"
proof -
  have shaped: "handleSubmit st =
        (st\<lparr>error := [], loading := True\<rparr>, Some (PostGenerate (js_trim (repoUrl st))))"
    if "repository_shape (repoUrl st)"
    using repository_shape_accepted [OF that] by (simp add: handleSubmit_def)
  then have refused: "\<not> repository_shape (repoUrl st)" if "snd (handleSubmit st) = None"
    using that by auto
  show ?thesis
    using shaped refused by (simp add: handleSubmit_def)
qed

theorem handleSubmit_by_shape_witness:
  "handleSubmit \<lparr>repoUrl = ''https://gitlab.com/owner/repo'', loading = False, error = ''''\<rparr> =
     (\<lparr>repoUrl = ''https://gitlab.com/owner/repo'', loading = False,
       error = ''Please enter a valid GitHub repository URL''\<rparr>, None) \<and>
   handleSubmit \<lparr>repoUrl = ''   '', loading = False, error = ''''\<rparr> =
     (\<lparr>repoUrl = ''   '', loading = False, error = ''''\<rparr>, None) \<and>
   snd (handleSubmit \<lparr>repoUrl = ''not a url github.com at all'', loading = False, error = ''''\<rparr>) =
     Some (PostGenerate ''not a url github.com at all'') \<and>
   handleSubmit \<lparr>repoUrl = '' https://github.com/owner/repo'', loading = False, error = ''old''\<rparr> =
     (\<lparr>repoUrl = '' https://github.com/owner/repo'', loading = True, error = ''''\<rparr>,
      Some (PostGenerate ''https://github.com/owner/repo''))"
proof -
  let ?a = "\<lparr>repoUrl = ''https://gitlab.com/owner/repo'', loading = False, error = ''''\<rparr>"
  let ?b = "\<lparr>repoUrl = ''   '', loading = False, error = ''''\<rparr>"
  let ?c = "\<lparr>repoUrl = ''not a url github.com at all'', loading = False, error = ''''\<rparr>"
  let ?d = "\<lparr>repoUrl = '' https://github.com/owner/repo'', loading = False, error = ''old''\<rparr>"
  have a: "\<not> repository_shape (repoUrl ?a) \<and> js_trim (repoUrl ?a) \<noteq> [] \<and>
      \<not> js_includes (repoUrl ?a) ''github.com''"
    by code_simp
  have b: "\<not> repository_shape (repoUrl ?b) \<and> js_trim (repoUrl ?b) = []"
    by code_simp
  have c: "\<not> repository_shape (repoUrl ?c) \<and> js_trim (repoUrl ?c) \<noteq> [] \<and>
      js_includes (repoUrl ?c) ''github.com''"
    by code_simp
  have d: "repository_shape (repoUrl ?d)"
    by code_simp
  have t: "js_trim ''not a url github.com at all'' = ''not a url github.com at all''"
    "js_trim '' https://github.com/owner/repo'' = ''https://github.com/owner/repo''"
    by code_simp+
  from a handleSubmit_by_shape [of ?a]
  have 1: "handleSubmit ?a = (?a\<lparr>error := ''Please enter a valid GitHub repository URL''\<rparr>, None)"
    by blast
  from b handleSubmit_by_shape [of ?b] have 2: "handleSubmit ?b = (?b, None)"
    by blast
  from c handleSubmit_by_shape [of ?c]
  have 3: "snd (handleSubmit ?c) = Some (PostGenerate (js_trim (repoUrl ?c)))"
    by blast
  from d handleSubmit_by_shape [of ?d]
  have 4: "handleSubmit ?d =
      (?d\<lparr>error := [], loading := True\<rparr>, Some (PostGenerate (js_trim (repoUrl ?d))))"
    by blast
  from 1 2 3 4 t show ?thesis by simp
qed

section \<open>The polling loop and terminal statuses\<close>

text \<open>
  Polling in order does what is expected of the loop: once a terminal status has been
  observed no further round changes the state, so no status request is sent and the
  status stays, and only the last of the observed statuses can be terminal.
\<close>

lemma poll_round_idle:
  "interval st = None \<Longrightarrow> in_flight st = [] \<Longrightarrow> effect_status st = status (task_status st) \<Longrightarrow>
   poll_round r st = st"
  by (simp add: poll_round_def)

lemma poll_idle:
  "interval st = None \<Longrightarrow> in_flight st = [] \<Longrightarrow> effect_status st = status (task_status st) \<Longrightarrow>
   poll rs st = st"
  by (induction rs) (simp_all add: poll_round_idle)

lemma polling_mount: "polling (mount tid)"
  by (simp add: polling_def mount_def run_effect_def terminal_def)

lemma polling_run_effect:
  "in_flight st = [] \<Longrightarrow> \<forall>s \<in> set (butlast (observed st)). \<not> terminal s \<Longrightarrow>
   observed st \<noteq> [] \<longrightarrow> last (observed st) = status (task_status st) \<Longrightarrow>
   polling (run_effect st)"
  by (simp add: polling_def run_effect_def)

lemma polling_round: assumes p: "polling st" shows "polling (poll_round r st)"
proof (cases "interval st")
  case None
  with p have "poll_round r st = st" by (simp add: poll_round_idle polling_def)
  with p show ?thesis by simp
next
  case (Some i)
  let ?st1 = "st\<lparr>status_requests := Suc (status_requests st), in_flight := []\<rparr>"
  from p Some have live: "\<not> terminal (status (task_status st))"
    by (auto simp: polling_def)
  from p Some have round: "poll_round r st = step Effect (on_reply i r ?st1)"
    by (simp add: poll_round_def polling_def)
  from p have p1: "polling ?st1" by (simp add: polling_def)
  show ?thesis
  proof (cases r)
    case NotOk
    with round p1 show ?thesis by (simp add: on_reply_def polling_def)
  next
    case Threw
    with round p1 show ?thesis by (simp add: on_reply_def polling_def)
  next
    case (Ok data)
    let ?st2 = "on_reply i r ?st1"
    have f: "in_flight ?st2 = []"
      using Ok by (simp add: on_reply_def Let_def)
    have o: "observed ?st2 = observed st @ [status data]"
      using Ok by (simp add: on_reply_def Let_def)
    have t: "status (task_status ?st2) = status data"
      using Ok by (simp add: on_reply_def Let_def)
    have e: "effect_status ?st2 = status (task_status st)"
      using Ok p by (simp add: on_reply_def Let_def polling_def)
    have "\<forall>s \<in> set (observed st). \<not> terminal s"
    proof (cases "observed st = []")
      case True
      then show ?thesis by simp
    next
      case False
      then have "observed st = butlast (observed st) @ [last (observed st)]" by simp
      then have "set (observed st) = set (butlast (observed st)) \<union> {last (observed st)}"
        by (metis Un_insert_right list.simps(15) set_append sup_bot.right_neutral list.set(1))
      with p False live show ?thesis by (auto simp: polling_def)
    qed
    then have b: "\<forall>s \<in> set (butlast (observed ?st2)). \<not> terminal s"
      by (simp add: o)
    have l: "observed ?st2 \<noteq> [] \<longrightarrow> last (observed ?st2) = status (task_status ?st2)"
      by (simp add: o t)
    show ?thesis
    proof (cases "status data = status (task_status st)")
      case True
      with live have "status data \<noteq> Complete" by (auto simp: terminal_def)
      with Ok Some have i: "interval ?st2 = Some i" by (simp add: on_reply_def Let_def)
      from True t e have "step Effect ?st2 = ?st2" by simp
      with f b l t e True live show ?thesis by (simp add: round polling_def)
    next
      case False
      with t e have "step Effect ?st2 = run_effect ?st2" by simp
      with polling_run_effect [OF f b l] show ?thesis by (simp add: round)
    qed
  qed
qed

lemma polling_poll: "polling st \<Longrightarrow> polling (poll rs st)"
  by (induction rs arbitrary: st) (simp_all add: polling_round)

lemma poll_terminal_absorbing:
  "terminal (status (task_status (poll rs (mount tid)))) \<Longrightarrow>
   poll further (poll rs (mount tid)) = poll rs (mount tid)"
proof -
  assume t: "terminal (status (task_status (poll rs (mount tid))))"
  have "polling (poll rs (mount tid))" by (intro polling_poll polling_mount)
  with t show ?thesis by (intro poll_idle) (simp_all add: polling_def)
qed

lemma poll_observed:
  "\<forall>s \<in> set (butlast (observed (poll rs (mount tid)))). \<not> terminal s"
  using polling_poll [OF polling_mount, of rs tid] by (simp add: polling_def)

text \<open>
  Between a reply with the status \<^verbatim>\<open>error\<close> and the next run of the effect the
  interval is still active, since the callback clears it only on \<^verbatim>\<open>complete\<close>.
\<close>

lemma poller_error_before_cleanup:
  "status (task_status (run
      [Tick, Reply 0 (Ok \<lparr>status = Error, progress = 10, message = ''Clone failed''\<rparr>)]
      (mount ''t1''))) = Error \<and>
   interval (run
      [Tick, Reply 0 (Ok \<lparr>status = Error, progress = 10, message = ''Clone failed''\<rparr>)]
      (mount ''t1'')) = Some 0 \<and>
   interval (run
      [Tick, Reply 0 (Ok \<lparr>status = Error, progress = 10, message = ''Clone failed''\<rparr>),
       Effect]
      (mount ''t1'')) = None \<and>
   interval (run
      [Tick, Reply 0 (Ok \<lparr>status = Complete, progress = 100, message = ''Done''\<rparr>)]
      (mount ''t1'')) = None"
  by (simp add: mount_def run_effect_def on_reply_def terminal_def Let_def)

text \<open>
  Claim C4. Once the poller has observed \<^verbatim>\<open>complete\<close> or \<^verbatim>\<open>error\<close> it is to
  send no further status request, and the observed statuses are never to leave the
  terminal status. The code stops the interval on a terminal status (the early return
  of the effect, \<^verbatim>\<open>clearInterval\<close> in the callback), but the callback passes every
  reply to \<^verbatim>\<open>setStatus\<close> unchecked. In the first trace below two status requests
  are in flight. The reply to the second comes first and carries \<^verbatim>\<open>complete\<close>; two
  requests have been sent by then and the effect has run. The reply to the first, sent
  while the task was generating, comes late: the status changes back to
  \<^verbatim>\<open>generating\<close>, the effect runs again and creates a new interval, and its next
  firing sends a third status request. The second trace is the same with \<^verbatim>\<open>error\<close>
  as the terminal status.
\<close>

theorem poller_late_reply_after_terminal:
  "status (task_status (run
      [Tick, Tick, Reply 1 (Ok \<lparr>status = Complete, progress = 100, message = ''Done''\<rparr>),
       Effect]
      (mount ''t1''))) = Complete \<and>
   status_requests (run
      [Tick, Tick, Reply 1 (Ok \<lparr>status = Complete, progress = 100, message = ''Done''\<rparr>),
       Effect]
      (mount ''t1'')) = 2 \<and>
   status_requests (run
      [Tick, Tick, Reply 1 (Ok \<lparr>status = Complete, progress = 100, message = ''Done''\<rparr>),
       Effect,
       Reply 0 (Ok \<lparr>status = Generating, progress = 60, message = ''Generating''\<rparr>),
       Effect, Tick]
      (mount ''t1'')) = 3 \<and>
   observed (run
      [Tick, Tick, Reply 1 (Ok \<lparr>status = Complete, progress = 100, message = ''Done''\<rparr>),
       Effect,
       Reply 0 (Ok \<lparr>status = Generating, progress = 60, message = ''Generating''\<rparr>),
       Effect, Tick]
      (mount ''t1'')) = [Complete, Generating] \<and>
   status_requests (run
      [Tick, Tick, Reply 1 (Ok \<lparr>status = Error, progress = 10, message = ''Clone failed''\<rparr>),
       Effect,
       Reply 0 (Ok \<lparr>status = Cloning, progress = 10, message = ''Cloning''\<rparr>),
       Effect, Tick]
      (mount ''t1'')) = 3 \<and>
   observed (run
      [Tick, Tick, Reply 1 (Ok \<lparr>status = Error, progress = 10, message = ''Clone failed''\<rparr>),
       Effect,
       Reply 0 (Ok \<lparr>status = Cloning, progress = 10, message = ''Cloning''\<rparr>),
       Effect, Tick]
      (mount ''t1'')) = [Error, Cloning]"
  by (simp add: mount_def run_effect_def on_reply_def terminal_def Let_def)

section \<open>Placeholders for missing sections\<close>

text \<open>
  Claim C5. The tabs for the tech stack, the setup guide, the API documentation, the raw
  markdown and the list of sections are total functions of the bundle, so rendering
  them cannot fail. Where the content of one of them is empty or absent, that tab shows
  its fixed placeholder text, whatever the other fields hold; a section with empty
  content shows \<^verbatim>\<open>No content available.\<close> under its own title. No tab shows an
  empty text.
\<close>

theorem missing_sections_show_placeholders:
  "(tech_stack docs = [] \<longrightarrow>
      techstack_tab docs = ReactMarkdown ''No tech stack information generated.'') \<and>
   (setup_guide docs = [] \<longrightarrow> setup_tab docs = ReactMarkdown ''No setup guide generated.'') \<and>
   (api_docs docs = None \<or> api_docs docs = Some [] \<longrightarrow>
      api_tab docs = ReactMarkdown ''No API documentation detected for this project.'') \<and>
   (full_markdown docs = None \<or> full_markdown docs = Some [] \<longrightarrow>
      markdown_tab docs = Pre ''Markdown not available.'') \<and>
   length (sections_tab docs) = length (doc_sections docs) \<and>
   (\<forall>i < length (doc_sections docs). sec_content (doc_sections docs ! i) = [] \<longrightarrow>
      sections_tab docs ! i =
        (sec_title (doc_sections docs ! i), Paragraph ''No content available.'')) \<and>
   shown (techstack_tab docs) \<noteq> [] \<and> shown (setup_tab docs) \<noteq> [] \<and>
   shown (api_tab docs) \<noteq> [] \<and> shown (markdown_tab docs) \<noteq> [] \<and>
   (\<forall>r \<in> set (sections_tab docs). shown (snd r) \<noteq> [])"
  by (auto simp: techstack_tab_def setup_tab_def api_tab_def markdown_tab_def sections_tab_def
      DocViewer_def or_else_def shown_def split: option.splits)

theorem missing_sections_show_placeholders_witness:
  "techstack_tab \<lparr>repo_name = ''demo'', overview = ''An overview.'',
      doc_sections = [\<lparr>sec_title = ''Install'', sec_content = ''Run make.'', sec_order = 1\<rparr>,
                      \<lparr>sec_title = ''Usage'', sec_content = '''', sec_order = 2\<rparr>],
      tech_stack = '''', setup_guide = '''', api_docs = None, full_markdown = Some '''',
      contributing_md = None, ai_code_review = None\<rparr> =
     ReactMarkdown ''No tech stack information generated.'' \<and>
   setup_tab \<lparr>repo_name = ''demo'', overview = ''An overview.'',
      doc_sections = [\<lparr>sec_title = ''Install'', sec_content = ''Run make.'', sec_order = 1\<rparr>,
                      \<lparr>sec_title = ''Usage'', sec_content = '''', sec_order = 2\<rparr>],
      tech_stack = '''', setup_guide = '''', api_docs = None, full_markdown = Some '''',
      contributing_md = None, ai_code_review = None\<rparr> =
     ReactMarkdown ''No setup guide generated.'' \<and>
   api_tab \<lparr>repo_name = ''demo'', overview = ''An overview.'',
      doc_sections = [\<lparr>sec_title = ''Install'', sec_content = ''Run make.'', sec_order = 1\<rparr>,
                      \<lparr>sec_title = ''Usage'', sec_content = '''', sec_order = 2\<rparr>],
      tech_stack = '''', setup_guide = '''', api_docs = None, full_markdown = Some '''',
      contributing_md = None, ai_code_review = None\<rparr> =
     ReactMarkdown ''No API documentation detected for this project.'' \<and>
   markdown_tab \<lparr>repo_name = ''demo'', overview = ''An overview.'',
      doc_sections = [\<lparr>sec_title = ''Install'', sec_content = ''Run make.'', sec_order = 1\<rparr>,
                      \<lparr>sec_title = ''Usage'', sec_content = '''', sec_order = 2\<rparr>],
      tech_stack = '''', setup_guide = '''', api_docs = None, full_markdown = Some '''',
      contributing_md = None, ai_code_review = None\<rparr> =
     Pre ''Markdown not available.'' \<and>
   sections_tab \<lparr>repo_name = ''demo'', overview = ''An overview.'',
      doc_sections = [\<lparr>sec_title = ''Install'', sec_content = ''Run make.'', sec_order = 1\<rparr>,
                      \<lparr>sec_title = ''Usage'', sec_content = '''', sec_order = 2\<rparr>],
      tech_stack = '''', setup_guide = '''', api_docs = None, full_markdown = Some '''',
      contributing_md = None, ai_code_review = None\<rparr> ! 1 =
     (''Usage'', Paragraph ''No content available.'')"
proof -
  let ?docs = "\<lparr>repo_name = ''demo'', overview = ''An overview.'',
      doc_sections = [\<lparr>sec_title = ''Install'', sec_content = ''Run make.'', sec_order = 1\<rparr>,
                      \<lparr>sec_title = ''Usage'', sec_content = '''', sec_order = 2\<rparr>],
      tech_stack = '''', setup_guide = '''', api_docs = None, full_markdown = Some '''',
      contributing_md = None, ai_code_review = None\<rparr>"
  note inst = missing_sections_show_placeholders [of ?docs]
  have a: "tech_stack ?docs = []" "setup_guide ?docs = []"
    "api_docs ?docs = None \<or> api_docs ?docs = Some []"
    "full_markdown ?docs = None \<or> full_markdown ?docs = Some []"
    "1 < length (doc_sections ?docs)" "sec_content (doc_sections ?docs ! 1) = []"
    "sec_title (doc_sections ?docs ! 1) = ''Usage''"
    by simp_all
  from inst a(1) have 1: "techstack_tab ?docs = ReactMarkdown ''No tech stack information generated.''"
    by blast
  from inst a(2) have 2: "setup_tab ?docs = ReactMarkdown ''No setup guide generated.''"
    by blast
  from inst a(3) have 3: "api_tab ?docs = ReactMarkdown ''No API documentation detected for this project.''"
    by blast
  from inst a(4) have 4: "markdown_tab ?docs = Pre ''Markdown not available.''"
    by blast
  from inst a(5,6) have "sections_tab ?docs ! 1 =
      (sec_title (doc_sections ?docs ! 1), Paragraph ''No content available.'')"
    by blast
  with a(7) have 5: "sections_tab ?docs ! 1 = (''Usage'', Paragraph ''No content available.'')"
    by simp
  from 1 2 3 4 5 show ?thesis by blast
qed

lemma present_sections_shown:
  "(tech_stack docs \<noteq> [] \<longrightarrow> techstack_tab docs = ReactMarkdown (tech_stack docs)) \<and>
   (setup_guide docs \<noteq> [] \<longrightarrow> setup_tab docs = ReactMarkdown (setup_guide docs)) \<and>
   (\<forall>s. api_docs docs = Some s \<and> s \<noteq> [] \<longrightarrow> api_tab docs = ReactMarkdown s) \<and>
   (\<forall>s. full_markdown docs = Some s \<and> s \<noteq> [] \<longrightarrow> markdown_tab docs = Pre s)"
  by (simp add: techstack_tab_def setup_tab_def api_tab_def markdown_tab_def DocViewer_def
      or_else_def)

section \<open>The health grade is monotone\<close>

text \<open>
  Claim C6. For scores between 0 and 100 the grade does not decrease when the score
  grows (in the order F, D, C, B, A, A+), it is one of the six grades, and the
  thresholds are exhaustive and do not overlap: every score of the range lies in
  exactly one band, the band of its grade, and no other score lies in a band.
\<close>

theorem grade_monotone_total:
  "(0 \<le> s \<and> s \<le> t \<and> t \<le> 100 \<longrightarrow> grade_rank (grade s) \<le> grade_rank (grade t)) \<and>
   grade s \<in> {Grade_A_plus, Grade_A, Grade_B, Grade_C, Grade_D, Grade_F} \<and>
   (0 \<le> s \<and> s \<le> 100 \<longrightarrow>
      (\<exists>!b. b \<in> set grade_bands \<and> in_band s b) \<and>
      (\<forall>b \<in> set grade_bands. in_band s b \<longrightarrow> snd (snd b) = grade s)) \<and>
   ((\<exists>b \<in> set grade_bands. in_band s b) = (0 \<le> s \<and> s \<le> 100))"
proof (intro conjI impI)
  show "grade_rank (grade s) \<le> grade_rank (grade t)" if "0 \<le> s \<and> s \<le> t \<and> t \<le> 100"
    using that by (simp add: grade_def)
  show "grade s \<in> {Grade_A_plus, Grade_A, Grade_B, Grade_C, Grade_D, Grade_F}"
    by (simp add: grade_def)
  show "\<exists>!b. b \<in> set grade_bands \<and> in_band s b" if range: "0 \<le> s \<and> s \<le> 100"
  proof -
    consider (f) "s \<le> 34" | (d) "35 \<le> s" "s \<le> 54" | (c) "55 \<le> s" "s \<le> 69"
      | (b) "70 \<le> s" "s \<le> 84" | (a) "85 \<le> s" "s \<le> 94" | (ap) "95 \<le> s"
      by linarith
    then show ?thesis
    proof cases
      case f
      with range show ?thesis
        by (intro ex1I [of _ "(0, 34, Grade_F)"]) (auto simp: grade_bands_def in_band_def)
    next
      case d
      with range show ?thesis
        by (intro ex1I [of _ "(35, 54, Grade_D)"]) (auto simp: grade_bands_def in_band_def)
    next
      case c
      with range show ?thesis
        by (intro ex1I [of _ "(55, 69, Grade_C)"]) (auto simp: grade_bands_def in_band_def)
    next
      case b
      with range show ?thesis
        by (intro ex1I [of _ "(70, 84, Grade_B)"]) (auto simp: grade_bands_def in_band_def)
    next
      case a
      with range show ?thesis
        by (intro ex1I [of _ "(85, 94, Grade_A)"]) (auto simp: grade_bands_def in_band_def)
    next
      case ap
      with range show ?thesis
        by (intro ex1I [of _ "(95, 100, Grade_A_plus)"]) (auto simp: grade_bands_def in_band_def)
    qed
  qed
  show "\<forall>b \<in> set grade_bands. in_band s b \<longrightarrow> snd (snd b) = grade s" if "0 \<le> s \<and> s \<le> 100"
    by (simp add: grade_bands_def in_band_def grade_def)
  show "(\<exists>b \<in> set grade_bands. in_band s b) = (0 \<le> s \<and> s \<le> 100)"
    unfolding grade_bands_def in_band_def by simp arith
qed

theorem grade_monotone_total_witness:
  "grade_rank (grade 34) \<le> grade_rank (grade 35) \<and> grade 34 = Grade_F \<and> grade 35 = Grade_D \<and>
   grade 94 = Grade_A \<and> grade 95 = Grade_A_plus \<and> in_band 94 (85, 94, Grade_A)"
proof -
  have h: "(0::int) \<le> 34 \<and> (34::int) \<le> 35 \<and> (35::int) \<le> 100" by simp
  from grade_monotone_total [of 34 35] h have "grade_rank (grade 34) \<le> grade_rank (grade 35)"
    by blast
  moreover have mem: "(85::int, 94::int, Grade_A) \<in> set grade_bands"
    and inb: "in_band 94 (85::int, 94::int, Grade_A)"
    by (simp_all add: grade_bands_def in_band_def)
  from grade_monotone_total [of 94 94]
  have "\<forall>b \<in> set grade_bands. in_band 94 b \<longrightarrow> snd (snd b) = grade 94"
    by simp
  from this mem
  have "in_band 94 (85::int, 94::int, Grade_A) \<longrightarrow> snd (snd (85::int, 94::int, Grade_A)) = grade 94"
    by (rule bspec)
  with inb have "grade 94 = Grade_A"
    by simp
  moreover have "grade 34 = Grade_F" "grade 35 = Grade_D" "grade 95 = Grade_A_plus"
    by (simp_all add: grade_def)
  ultimately show ?thesis by (simp add: in_band_def)
qed

section \<open>Width of the language bars\<close>

lemma maxLines_ge_1: "1 \<le> maxLines ld"
  by (induction ld) (simp_all add: maxLines_def)

lemma lines_le_maxLines: "e \<in> set ld \<Longrightarrow> lines e \<le> maxLines ld"
  by (induction ld) (auto simp: maxLines_def)

lemma maxLines_Max: "maxLines ld = Max (insert 1 (lines ` set ld))"
proof (induction ld)
  case Nil
  then show ?case by (simp add: maxLines_def)
next
  case (Cons e ld)
  have "maxLines (e # ld) = max (lines e) (maxLines ld)" by (simp add: maxLines_def)
  also have "\<dots> = max (lines e) (Max (insert 1 (lines ` set ld)))" by (simp add: Cons)
  also have "\<dots> = Max (insert (lines e) (insert 1 (lines ` set ld)))" by simp
  finally show ?case by (simp add: insert_commute)
qed

lemma maxLines_zero: "\<forall>e \<in> set ld. lines e \<le> 1 \<Longrightarrow> maxLines ld = 1"
  by (induction ld) (simp_all add: maxLines_def)

text \<open>
  Claim C8. When no language has a negative line count, the divisor of the bar width is
  the largest line count or 1, whichever is greater, so it is at least 1 and the
  division is never by zero: the width of a bar is the line count of its language
  divided by that maximum, times 100, and multiplied back by the divisor it gives 100
  times the line count. Every bar width lies between 0 and 100, and a language with
  the largest line count, when that is at least 1, has the width 100. With no
  languages at all the divisor is 1, and when every line count is zero the divisor is 1
  and every width is 0. The quotient is taken exactly.
\<close>

theorem bar_width_bounds:
  "\<forall>e \<in> set ld. 0 \<le> lines e \<Longrightarrow>
   maxLines ld = Max (insert 1 (lines ` set ld)) \<and>
   1 \<le> maxLines ld \<and> real_of_int (maxLines ld) \<noteq> 0 \<and>
   (\<forall>e \<in> set ld.
      bar_width ld e =
        real_of_int (lines e) / real_of_int (Max (insert 1 (lines ` set ld))) * 100 \<and>
      bar_width ld e * real_of_int (Max (insert 1 (lines ` set ld))) =
        100 * real_of_int (lines e) \<and>
      (lines e = Max (insert 1 (lines ` set ld)) \<longrightarrow> bar_width ld e = 100)) \<and>
   (\<forall>e \<in> set ld. 0 \<le> bar_width ld e \<and> bar_width ld e \<le> 100) \<and>
   (ld = [] \<longrightarrow> maxLines ld = 1) \<and>
   ((\<forall>e \<in> set ld. lines e = 0) \<longrightarrow> maxLines ld = 1 \<and> (\<forall>e \<in> set ld. bar_width ld e = 0))"
proof (intro conjI ballI impI)
  assume nonneg: "\<forall>e \<in> set ld. 0 \<le> lines e"
  have pos: "0 < real_of_int (maxLines ld)" using maxLines_ge_1 [of ld] by simp
  show "maxLines ld = Max (insert 1 (lines ` set ld))" by (rule maxLines_Max)
  show "1 \<le> maxLines ld" by (rule maxLines_ge_1)
  show "real_of_int (maxLines ld) \<noteq> 0" using pos by simp
  show "maxLines ld = 1" if "ld = []" using that by (simp add: maxLines_def)
  show "maxLines ld = 1" if "\<forall>e \<in> set ld. lines e = 0"
    using that by (simp add: maxLines_zero)
  show "bar_width ld e = 0" if "\<forall>e \<in> set ld. lines e = 0" "e \<in> set ld" for e
    using that by (simp add: bar_width_def)
  show "bar_width ld e =
      real_of_int (lines e) / real_of_int (Max (insert 1 (lines ` set ld))) * 100" for e
    by (simp only: bar_width_def maxLines_Max)
  show "bar_width ld e * real_of_int (Max (insert 1 (lines ` set ld))) =
      100 * real_of_int (lines e)" for e
    using pos unfolding maxLines_Max [symmetric] by (simp add: bar_width_def)
  show "bar_width ld e = 100" if "lines e = Max (insert 1 (lines ` set ld))" for e
    using pos that unfolding maxLines_Max [symmetric] by (simp add: bar_width_def)
  fix e
  assume e: "e \<in> set ld"
  from nonneg e have "0 \<le> real_of_int (lines e)" by simp
  with pos show "0 \<le> bar_width ld e" by (simp add: bar_width_def)
  from lines_le_maxLines [OF e] have "real_of_int (lines e) \<le> real_of_int (maxLines ld)"
    by simp
  with pos have "real_of_int (lines e) / real_of_int (maxLines ld) \<le> 1"
    by (simp add: divide_le_eq_1)
  then have "real_of_int (lines e) / real_of_int (maxLines ld) * 100 \<le> 1 * 100"
    by (rule mult_right_mono) simp
  then show "bar_width ld e \<le> 100" by (simp add: bar_width_def)
qed

theorem bar_width_bounds_witness:
  "maxLines [\<lparr>language = ''Python'', lines = 300, percentage = 75\<rparr>,
             \<lparr>language = ''Shell'', lines = 100, percentage = 25\<rparr>] = 300 \<and>
   bar_width [\<lparr>language = ''Python'', lines = 300, percentage = 75\<rparr>,
              \<lparr>language = ''Shell'', lines = 100, percentage = 25\<rparr>]
     \<lparr>language = ''Python'', lines = 300, percentage = 75\<rparr> = 100 \<and>
   bar_width [\<lparr>language = ''Python'', lines = 300, percentage = 75\<rparr>,
              \<lparr>language = ''Shell'', lines = 100, percentage = 25\<rparr>]
     \<lparr>language = ''Shell'', lines = 100, percentage = 25\<rparr> = 100 / 3 \<and>
   maxLines [] = 1 \<and>
   maxLines [\<lparr>language = ''JSON'', lines = 0, percentage = 0\<rparr>] = 1 \<and>
   bar_width [\<lparr>language = ''JSON'', lines = 0, percentage = 0\<rparr>]
     \<lparr>language = ''JSON'', lines = 0, percentage = 0\<rparr> = 0"
proof -
  let ?py = "\<lparr>language = ''Python'', lines = 300, percentage = 75\<rparr>"
  let ?sh = "\<lparr>language = ''Shell'', lines = 100, percentage = 25\<rparr>"
  let ?js = "\<lparr>language = ''JSON'', lines = 0, percentage = 0\<rparr>"
  have h1: "\<forall>e \<in> set [?py, ?sh]. 0 \<le> lines e" by simp
  have h2: "\<forall>e \<in> set ([] :: language_entry list). 0 \<le> lines e" by simp
  have h3: "\<forall>e \<in> set [?js]. 0 \<le> lines e" by simp
  have z: "\<forall>e \<in> set [?js]. lines e = 0" by simp
  have m: "Max (insert 1 (lines ` set [?py, ?sh])) = 300" by simp
  note inst = bar_width_bounds [OF h1]
  from inst have 0: "maxLines [?py, ?sh] = Max (insert 1 (lines ` set [?py, ?sh]))"
    by (rule conjunct1)
  from inst have "\<forall>e \<in> set [?py, ?sh].
      bar_width [?py, ?sh] e =
        real_of_int (lines e) / real_of_int (Max (insert 1 (lines ` set [?py, ?sh]))) * 100 \<and>
      bar_width [?py, ?sh] e * real_of_int (Max (insert 1 (lines ` set [?py, ?sh]))) =
        100 * real_of_int (lines e) \<and>
      (lines e = Max (insert 1 (lines ` set [?py, ?sh])) \<longrightarrow> bar_width [?py, ?sh] e = 100)"
    by (elim conjE)
  then have w: "\<forall>e \<in> set [?py, ?sh]. bar_width [?py, ?sh] e = real_of_int (lines e) / 300 * 100"
    unfolding m by simp
  from w have 1: "bar_width [?py, ?sh] ?py = 100" by simp
  from w have 2: "bar_width [?py, ?sh] ?sh = 100 / 3" by simp
  from bar_width_bounds [OF h2] have 3: "maxLines [] = 1" by simp
  from bar_width_bounds [OF h3] z have 4: "maxLines [?js] = 1" "bar_width [?js] ?js = 0"
    by simp_all
  from 0 m have 5: "maxLines [?py, ?sh] = 300" by simp
  from 1 2 3 4 5 show ?thesis by (intro conjI)
qed

section \<open>Colour and arc of the health gauge\<close>

text \<open>
  The six grades of the contract have their colours, a grade that is neither an own
  property of the table nor a property of \<^verbatim>\<open>Object.prototype\<close> gets the fallback
  colour, and the offset of the arc is the circumference times \<open>1 - score / 100\<close>.
\<close>

lemma gauge_color_contract:
  "gauge_color ''A+'' = Str ''#00ff88'' \<and> gauge_color ''A'' = Str ''#22c55e'' \<and>
   gauge_color ''B'' = Str ''#84cc16'' \<and> gauge_color ''C'' = Str ''#eab308'' \<and>
   gauge_color ''D'' = Str ''#f97316'' \<and> gauge_color ''F'' = Str ''#ef4444''"
  by (simp add: gauge_color_def get_property_def gradeColors_def truthy_def)

lemma gauge_color_fallback:
  "map_of gradeColors g = None \<Longrightarrow> map_of object_prototype g = None \<Longrightarrow>
   gauge_color g = Str ''#888''"
  by (simp add: gauge_color_def get_property_def truthy_def)

lemma gauge_color_inherited:
  "map_of gradeColors g = None \<Longrightarrow> map_of object_prototype g = Some v \<Longrightarrow>
   v \<noteq> Str [] \<Longrightarrow> v \<noteq> Undefined \<Longrightarrow> gauge_color g = v"
  by (cases v) (simp_all add: gauge_color_def get_property_def truthy_def)

lemma gauge_offset_eq: "gauge_offset sc = circumference * (1 - sc / 100)"
  by (simp add: gauge_offset_def algebra_simps)

text \<open>
  Claim C9. Every grade outside the six of the contract is to get the fallback colour
  \<^verbatim>\<open>#888\<close>. The grade \<^verbatim>\<open>constructor\<close> is a string outside the contract, and
  reading the table under it finds the inherited property of that name, a function;
  a function is truthy, so the fallback is not taken and the colour is not a colour
  string at all. It is the same for every property name of \<^verbatim>\<open>Object.prototype\<close>,
  while a grade such as \<^verbatim>\<open>E\<close> does get the fallback.
\<close>

theorem gauge_color_constructor:
  "gauge_color ''constructor'' = Fn ''Object'' \<and> gauge_color ''constructor'' \<noteq> Str ''#888'' \<and>
   gauge_color ''toString'' = Fn ''toString'' \<and> gauge_color ''E'' = Str ''#888''"
  by (simp add: gauge_color_def get_property_def gradeColors_def object_prototype_def truthy_def)

end
